theory Spec2Isabelle
  imports Main "HOL-Library.AList" "HOL-Library.Char_ord" "HOL-Library.List_Lexorder"
    "HOL-Library.Product_Lexorder"
begin

section \<open>card-diff: a shallow embedding of \<open>compare.py\<close>\<close>

text \<open>
  Python's \<open>str\<close> is modelled by \<^typ>\<open>string\<close>, a list of \<^typ>\<open>char\<close>. A
  \<^typ>\<open>char\<close> stands for a code point below 256 (ASCII and Latin-1), so the model speaks
  about card lists whose characters lie in that range. Python's unbounded \<open>int\<close> is
  \<^typ>\<open>int\<close>; the conversions \<open>int(...)\<close> and \<open>str(...)\<close> raise \<open>ValueError\<close> past
  CPython's default limit of 4300 digits, and the model has both errors. An exception is the
  \<open>Inl\<close> value of a sum type and carries its text. A \<open>dict\<close> is an association list in
  insertion order whose keys are pairwise distinct; a \<open>set\<close> of names is a duplicate-free
  list.
\<close>

subsection \<open>The string operations the program uses\<close>

text \<open>
  \<open>str.isspace\<close> on one character, which is also what \<open>\s\<close> matches in a \<open>str\<close> pattern
  and what \<open>str.strip()\<close> removes: tab, line feed, vertical tab, form feed, carriage return,
  the four separators 0x1C..0x1F, the space, NEL (0x85) and the no-break space (0xA0).
\<close>

definition isspace :: "char \<Rightarrow> bool" where
  "isspace c \<longleftrightarrow>
     c \<in> {CHR 0x09, CHR 0x0A, CHR 0x0B, CHR 0x0C, CHR 0x0D,
          CHR 0x1C, CHR 0x1D, CHR 0x1E, CHR 0x1F, CHR 0x20, CHR 0x85, CHR 0xA0}"

text \<open>What \<open>\d\<close> matches: below code point 256 the decimal digits are \<open>0\<close> to \<open>9\<close>.\<close>

definition isdigit :: "char \<Rightarrow> bool" where
  "isdigit c \<longleftrightarrow> c \<in> set ''0123456789''"

text \<open>\<open>s.strip()\<close>: whitespace removed at both ends.\<close>

definition strip :: "string \<Rightarrow> string" where
  "strip s = rev (dropWhile isspace (rev (dropWhile isspace s)))"

text \<open>\<open>s.startswith(p)\<close>.\<close>

fun startswith :: "string \<Rightarrow> string \<Rightarrow> bool" where
  "startswith s [] = True"
| "startswith [] (p # ps) = False"
| "startswith (c # cs) (p # ps) = (c = p \<and> startswith cs ps)"

text \<open>\<open>sub in s\<close>: \<open>sub\<close> occurs in \<open>s\<close> as a contiguous substring.\<close>

fun contains :: "string \<Rightarrow> string \<Rightarrow> bool" where
  "contains [] sub = (sub = [])"
| "contains (c # cs) sub = (startswith (c # cs) sub \<or> contains cs sub)"

text \<open>
  \<open>s.split(sep)[0]\<close> for a non-empty separator: the text before the first occurrence of
  \<open>sep\<close>, the whole of \<open>s\<close> when there is none.
\<close>

fun split_first :: "string \<Rightarrow> string \<Rightarrow> string" where
  "split_first [] sep = []"
| "split_first (c # cs) sep = (if startswith (c # cs) sep then [] else c # split_first cs sep)"

text \<open>\<open>s.split(c)\<close> for a separator of one character: it never returns the empty list.\<close>

fun split_char :: "string \<Rightarrow> char \<Rightarrow> string list" where
  "split_char [] c = [[]]"
| "split_char (x # xs) c =
     (if x = c then [] # split_char xs c
      else (case split_char xs c of [] \<Rightarrow> [[x]] | p # ps \<Rightarrow> (x # p) # ps))"

text \<open>The decimal text of a natural number.\<close>

fun str_nat :: "nat \<Rightarrow> string" where
  "str_nat n =
     (if n < 10 then [char_of (48 + n)] else str_nat (n div 10) @ [char_of (48 + n mod 10)])"

text \<open>
  The default of \<open>sys.get_int_max_str_digits()\<close>: the longest digit string that \<open>int\<close>
  converts and the longest that \<open>str\<close> produces.
\<close>

definition int_max_str_digits :: nat where
  "int_max_str_digits = 4300"

text \<open>
  \<open>int(ds)\<close> for a string of decimal digits. With more than 4300 digits, leading zeros
  counted, it raises \<open>ValueError\<close> with the text below.
\<close>

definition digit_value :: "char \<Rightarrow> int" where
  "digit_value c = int (of_char c) - 48"

definition digits_value :: "string \<Rightarrow> int" where
  "digits_value ds = foldl (\<lambda>a c. 10 * a + digit_value c) 0 ds"

definition int_of_digits :: "string \<Rightarrow> string + int" where
  "int_of_digits ds =
     (if int_max_str_digits < length ds then
        Inl (''Exceeds the limit ('' @ str_nat int_max_str_digits
               @ '' digits) for integer string conversion: value has '' @ str_nat (length ds)
               @ '' digits; use sys.set_int_max_str_digits() to increase the limit'')
      else Inr (digits_value ds))"

text \<open>
  \<open>str(i)\<close>, which is what \<open>f"{qty}"\<close> calls: with more than 4300 digits, the sign not
  counted, it raises \<open>ValueError\<close> with the text below.
\<close>

definition str_int :: "int \<Rightarrow> string + string" where
  "str_int i =
     (if int_max_str_digits < length (str_nat (nat \<bar>i\<bar>)) then
        Inl (''Exceeds the limit ('' @ str_nat int_max_str_digits
               @ '' digits) for integer string conversion; ''
               @ ''use sys.set_int_max_str_digits() to increase the limit'')
      else Inr (if i < 0 then CHR ''-'' # str_nat (nat \<bar>i\<bar>) else str_nat (nat \<bar>i\<bar>)))"

subsection \<open>\<open>normalize_card_name\<close>\<close>

definition normalize_card_name :: "string \<Rightarrow> string" where
  "normalize_card_name card_name =
     (if contains card_name '' // '' then strip (split_first card_name '' // '')
      else if contains card_name ''/'' then strip (split_first card_name ''/'')
      else card_name)"

subsection \<open>The three regular expressions of \<open>parse_card_line\<close>\<close>

text \<open>
  \<open>re.search(r'\[([^\]]+)\]', line)\<close>, returning group 1. The search tries every start
  position from the left. At a \<open>[\<close> the class \<open>[^\]]+\<close> takes the longest run of characters
  other than \<open>]\<close>; the match succeeds when that run is not empty and a \<open>]\<close> follows it. A
  shorter run is followed by a character of the run, never by \<open>]\<close>, so backtracking adds no
  match.
\<close>

fun tags_search :: "string \<Rightarrow> string option" where
  "tags_search [] = None"
| "tags_search (c # cs) =
     (if c = CHR ''['' \<and> takeWhile (\<lambda>x. x \<noteq> CHR '']'') cs \<noteq> []
           \<and> dropWhile (\<lambda>x. x \<noteq> CHR '']'') cs \<noteq> []
      then Some (takeWhile (\<lambda>x. x \<noteq> CHR '']'') cs)
      else tags_search cs)"

text \<open>
  \<open>re.match(r'^(\d+)x?\s+', line)\<close>, returning group 1 and the text from \<open>end()\<close> on. The
  digits are the longest run at the start (after fewer digits comes a digit, which is neither
  \<open>x\<close> nor whitespace); an \<open>x\<close> after them is taken (left in place it is not whitespace);
  the whitespace is the longest run, and there must be some.
\<close>

definition quantity_match :: "string \<Rightarrow> (string \<times> string) option" where
  "quantity_match line =
     (let digits = takeWhile isdigit line;
          after_digits = dropWhile isdigit line;
          after_x = (case after_digits of
                       [] \<Rightarrow> []
                     | c # cs \<Rightarrow> if c = CHR ''x'' then cs else c # cs)
      in if digits \<noteq> [] \<and> takeWhile isspace after_x \<noteq> []
         then Some (digits, dropWhile isspace after_x)
         else None)"

text \<open>\<open>re.match(r'([^(]+)', text)\<close>, returning group 1: the longest run without \<open>(\<close>.\<close>

definition card_name_match :: "string \<Rightarrow> string option" where
  "card_name_match text =
     (if takeWhile (\<lambda>x. x \<noteq> CHR ''('') text = [] then None
      else Some (takeWhile (\<lambda>x. x \<noteq> CHR ''('') text))"

subsection \<open>\<open>parse_card_line\<close>\<close>

text \<open>The check of the tags: \<open>True\<close> when the line is to be ignored.\<close>

definition tags_exclude :: "string \<Rightarrow> bool" where
  "tags_exclude line =
     (if contains line ''['' \<and> contains line '']'' then
        (case tags_search line of
           None \<Rightarrow> False
         | Some tags_text \<Rightarrow>
             (\<exists>tag \<in> set (split_char tags_text CHR '',''). strip tag = ''Sideboard'')
             \<or> contains tags_text ''{noDeck}'')
      else False)"

text \<open>
  The result is \<open>Inr (card_name, quantity)\<close> when the function returns and \<open>Inl e\<close> when
  \<open>int\<close> raises the \<open>ValueError\<close> of text \<open>e\<close>, which the function does not catch. The
  conversion comes before the match of the name, as in the source.
\<close>

definition parse_card_line :: "string \<Rightarrow> string + string \<times> int" where
  "parse_card_line raw =
     (let line = strip raw in
      if line = [] then Inr ([], 0)
      else if tags_exclude line then Inr ([], 0)
      else (case quantity_match line of
              None \<Rightarrow> Inr ([], 0)
            | Some (digits, remaining_text) \<Rightarrow>
                (case int_of_digits digits of
                   Inl e \<Rightarrow> Inl e
                 | Inr quantity \<Rightarrow>
                     (case card_name_match remaining_text of
                        None \<Rightarrow> Inr ([], 0)
                      | Some name \<Rightarrow> Inr (normalize_card_name (strip name), quantity)))))"

subsection \<open>Dictionaries and sets of names\<close>

text \<open>
  A \<open>dict\<close> keeps its entries in insertion order under pairwise distinct keys.
  \<open>k in d\<close> is \<open>dict_contains\<close>. The assignment \<open>d[k] = v\<close> is \<^const>\<open>AList.update\<close>: it
  replaces the value in place when the key is present and appends the entry otherwise.
  \<open>del d[k]\<close> is \<^const>\<open>AList.delete\<close>. On the \<open>defaultdict(int)\<close> of the file reader,
  \<open>d[k] += q\<close> reads \<open>0\<close> for a key that is absent and then assigns.
\<close>

type_synonym 'v dict = "(string \<times> 'v) list"

definition dict_contains :: "'v dict \<Rightarrow> string \<Rightarrow> bool" where
  "dict_contains d k \<longleftrightarrow> k \<in> set (map fst d)"

definition dict_add :: "int dict \<Rightarrow> string \<Rightarrow> int \<Rightarrow> int dict" where
  "dict_add d k q = AList.update k ((case map_of d k of None \<Rightarrow> 0 | Some v \<Rightarrow> v) + q) d"

subsection \<open>Files, printing and the ways a function ends\<close>

text \<open>
  What opening a path and iterating over its lines does:
  \<^item> \<open>NotFound\<close>: \<open>open\<close> raises \<open>FileNotFoundError\<close>;
  \<^item> \<open>OpenFails e\<close>: \<open>open\<close> raises another exception whose text is \<open>e\<close> (no permission,
    a directory, ...);
  \<^item> \<open>ReadFails ls e\<close>: the file opens, the iteration yields the lines \<open>ls\<close> and then raises
    an exception whose text is \<open>e\<close> (a decoding error in a later block, an I/O error);
  \<^item> \<open>Lines ls\<close>: the file opens and the iteration yields the lines \<open>ls\<close> and ends.
\<close>

datatype text_file = NotFound | OpenFails string | ReadFails "string list" string | Lines "string list"

type_synonym filesystem = "string \<Rightarrow> text_file"

text \<open>
  A call returns a value, or leaves the process through \<open>sys.exit(n)\<close>, or ends with an
  exception that nothing catches: \<open>Raise e\<close>, after which Python prints a traceback to the
  error stream and the process ends with status 1.
\<close>

datatype 'a outcome = Exit int | Raise string | Return 'a

text \<open>\<open>print(s)\<close> appends \<open>s\<close> and a line feed to the standard output.\<close>

definition print :: "string \<Rightarrow> string" where
  "print s = s @ [CHR 0x0A]"

text \<open>A string between apostrophes, as in \<open>f"'{file_path}'"\<close>.\<close>

definition quoted :: "string \<Rightarrow> string" where
  "quoted s = [CHR 0x27] @ s @ [CHR 0x27]"

subsection \<open>\<open>read_card_file\<close>\<close>

definition BASIC_LANDS :: "string set" where
  "BASIC_LANDS = {''Forest'', ''Island'', ''Swamp'', ''Plains'', ''Mountain''}"

text \<open>
  The body of the loop once the line is parsed, and the loop: it ends at the first line on
  which \<open>parse_card_line\<close> raises, and yields the mapping built so far and the text of the
  exception, if any.
\<close>

definition card_step :: "int dict \<Rightarrow> string \<times> int \<Rightarrow> int dict" where
  "card_step cards parsed =
     (case parsed of
        (card_name, quantity) \<Rightarrow>
          if card_name \<noteq> [] \<and> card_name \<notin> BASIC_LANDS
          then dict_add cards card_name quantity
          else cards)"

fun card_loop :: "int dict \<Rightarrow> string list \<Rightarrow> int dict \<times> string option" where
  "card_loop cards [] = (cards, None)"
| "card_loop cards (line # ls) =
     (case parse_card_line line of
        Inl e \<Rightarrow> (cards, Some e)
      | Inr parsed \<Rightarrow> card_loop (card_step cards parsed) ls)"

definition read_card_lines :: "string list \<Rightarrow> int dict \<times> string option" where
  "read_card_lines ls = card_loop [] ls"

text \<open>
  Any exception but \<open>FileNotFoundError\<close> reaches the second handler: one raised by \<open>open\<close>,
  one raised by the iteration, and the \<open>ValueError\<close> of \<open>parse_card_line\<close>.
\<close>

definition read_card_file :: "filesystem \<Rightarrow> string \<Rightarrow> string \<times> int dict outcome" where
  "read_card_file fs file_path =
     (case fs file_path of
        NotFound \<Rightarrow>
          (print (''Error: File '' @ quoted file_path @ '' not found.''), Exit 1)
      | OpenFails e \<Rightarrow>
          (print (''Error reading file '' @ quoted file_path @ '': '' @ e), Exit 1)
      | ReadFails ls e \<Rightarrow>
          (case read_card_lines ls of
             (cards, Some e') \<Rightarrow>
               (print (''Error reading file '' @ quoted file_path @ '': '' @ e'), Exit 1)
           | (cards, None) \<Rightarrow>
               (print (''Error reading file '' @ quoted file_path @ '': '' @ e), Exit 1))
      | Lines ls \<Rightarrow>
          (case read_card_lines ls of
             (cards, Some e') \<Rightarrow>
               (print (''Error reading file '' @ quoted file_path @ '': '' @ e'), Exit 1)
           | (cards, None) \<Rightarrow> ([], Return cards)))"

subsection \<open>\<open>read_filter_file\<close>\<close>

text \<open>
  The Python \<open>set\<close> of names is a duplicate-free list. Python fixes no order of iteration
  over a set; the only loop over this one deletes each of its names from two dictionaries,
  and \<open>remove_filtered_conv\<close> below shows that the order does not matter.
\<close>

definition filter_step :: "string list \<Rightarrow> string \<times> int \<Rightarrow> string list" where
  "filter_step filter_cards parsed =
     (case parsed of
        (card_name, _) \<Rightarrow>
          if card_name \<noteq> [] then List.insert card_name filter_cards else filter_cards)"

fun filter_loop :: "string list \<Rightarrow> string list \<Rightarrow> string list \<times> string option" where
  "filter_loop filter_cards [] = (filter_cards, None)"
| "filter_loop filter_cards (line # ls) =
     (case parse_card_line line of
        Inl e \<Rightarrow> (filter_cards, Some e)
      | Inr parsed \<Rightarrow> filter_loop (filter_step filter_cards parsed) ls)"

definition read_filter_lines :: "string list \<Rightarrow> string list \<times> string option" where
  "read_filter_lines ls = filter_loop [] ls"

text \<open>
  Both handlers print and fall through to \<open>return filter_cards\<close>: the set as the loop left
  it.
\<close>

definition read_filter_file :: "filesystem \<Rightarrow> string \<Rightarrow> string \<times> string list" where
  "read_filter_file fs file_path =
     (case fs file_path of
        NotFound \<Rightarrow>
          (print (''Warning: Filter file '' @ quoted file_path
                    @ '' not found. No cards will be filtered.''), [])
      | OpenFails e \<Rightarrow>
          (print (''Warning: Error reading filter file '' @ quoted file_path @ '': '' @ e
                    @ ''. No cards will be filtered.''), [])
      | ReadFails ls e \<Rightarrow>
          (case read_filter_lines ls of
             (filter_cards, Some e') \<Rightarrow>
               (print (''Warning: Error reading filter file '' @ quoted file_path @ '': '' @ e'
                         @ ''. No cards will be filtered.''), filter_cards)
           | (filter_cards, None) \<Rightarrow>
               (print (''Warning: Error reading filter file '' @ quoted file_path @ '': '' @ e
                         @ ''. No cards will be filtered.''), filter_cards))
      | Lines ls \<Rightarrow>
          (case read_filter_lines ls of
             (filter_cards, Some e') \<Rightarrow>
               (print (''Warning: Error reading filter file '' @ quoted file_path @ '': '' @ e'
                         @ ''. No cards will be filtered.''), filter_cards)
           | (filter_cards, None) \<Rightarrow> ([], filter_cards)))"

subsection \<open>\<open>compare_card_lists\<close>\<close>

text \<open>The truth value of \<open>filter_file\<close>: \<open>None\<close> and the empty string are false.\<close>

definition given :: "string option \<Rightarrow> bool" where
  "given filter_file = (case filter_file of None \<Rightarrow> False | Some p \<Rightarrow> p \<noteq> [])"

text \<open>The loop that deletes the filtered names from one dictionary.\<close>

definition remove_filtered :: "string list \<Rightarrow> int dict \<Rightarrow> int dict" where
  "remove_filtered filter_cards cards =
     foldl (\<lambda>d name. if dict_contains d name then AList.delete name d else d) cards filter_cards"

text \<open>
  The comparison proper. A comprehension over the items of a dictionary, whose keys are
  distinct, keeps the items that pass the test, in order. In the loop, \<open>cards2[card]\<close> is read
  only when \<open>card in cards2\<close> holds; the loop variable \<open>card\<close> is \<open>name\<close> here.
\<close>

definition diff_step :: "int dict \<Rightarrow> (int \<times> int) dict \<Rightarrow> string \<times> int \<Rightarrow> (int \<times> int) dict" where
  "diff_step cards2 different_quantities item =
     (case item of
        (name, qty1) \<Rightarrow>
          (case map_of cards2 name of
             None \<Rightarrow> different_quantities
           | Some qty2 \<Rightarrow>
               if qty2 \<noteq> qty1 then AList.update name (qty1, qty2) different_quantities
               else different_quantities))"

definition compare_mappings ::
  "int dict \<Rightarrow> int dict \<Rightarrow> int dict \<times> int dict \<times> (int \<times> int) dict" where
  "compare_mappings cards1 cards2 =
     (filter (\<lambda>(name, qty). \<not> dict_contains cards2 name) cards1,
      filter (\<lambda>(name, qty). \<not> dict_contains cards1 name) cards2,
      foldl (diff_step cards2) [] cards1)"

text \<open>
  \<open>compare_card_lists\<close> in two steps. The first reads the two card files and, when a filter
  file is given, the filter file, and deletes the filtered names from both mappings: it
  yields the two working mappings. The second is \<open>compare_mappings\<close> on them.
\<close>

definition load_card_lists ::
  "filesystem \<Rightarrow> string \<Rightarrow> string \<Rightarrow> string option \<Rightarrow> string \<times> (int dict \<times> int dict) outcome" where
  "load_card_lists fs file1 file2 filter_file =
     (case read_card_file fs file1 of
        (out1, Exit n) \<Rightarrow> (out1, Exit n)
      | (out1, Raise e) \<Rightarrow> (out1, Raise e)
      | (out1, Return cards1) \<Rightarrow>
          (case read_card_file fs file2 of
             (out2, Exit n) \<Rightarrow> (out1 @ out2, Exit n)
           | (out2, Raise e) \<Rightarrow> (out1 @ out2, Raise e)
           | (out2, Return cards2) \<Rightarrow>
               if given filter_file then
                 (case read_filter_file fs (the filter_file) of
                    (out3, filter_cards) \<Rightarrow>
                      (out1 @ out2 @ out3,
                       Return (remove_filtered filter_cards cards1,
                               remove_filtered filter_cards cards2)))
               else (out1 @ out2, Return (cards1, cards2))))"

definition compare_card_lists ::
  "filesystem \<Rightarrow> string \<Rightarrow> string \<Rightarrow> string option
     \<Rightarrow> string \<times> (int dict \<times> int dict \<times> (int \<times> int) dict) outcome" where
  "compare_card_lists fs file1 file2 filter_file =
     (case load_card_lists fs file1 file2 filter_file of
        (out, Exit n) \<Rightarrow> (out, Exit n)
      | (out, Raise e) \<Rightarrow> (out, Raise e)
      | (out, Return (cards1, cards2)) \<Rightarrow> (out, Return (compare_mappings cards1 cards2)))"

subsection \<open>\<open>main\<close>\<close>

text \<open>
  The lines \<open>main\<close> prints for its three results, each the argument of one \<open>print\<close>; a line
  whose f-string raises is \<open>Inl\<close>. \<open>sorted\<close> orders the items as Python orders tuples: by
  name, code point by code point, a proper prefix first.
\<close>

definition unique_line :: "string \<times> int \<Rightarrow> string + string" where
  "unique_line item =
     (case item of
        (name, qty) \<Rightarrow>
          (case str_int qty of
             Inl e \<Rightarrow> Inl e
           | Inr q \<Rightarrow> Inr (''  '' @ q @ ''x '' @ name)))"

definition different_line :: "string \<Rightarrow> string \<Rightarrow> string \<times> int \<times> int \<Rightarrow> string + string" where
  "different_line file1 file2 item =
     (case item of
        (name, qty1, qty2) \<Rightarrow>
          (case str_int qty1 of
             Inl e \<Rightarrow> Inl e
           | Inr q1 \<Rightarrow>
               (case str_int qty2 of
                  Inl e \<Rightarrow> Inl e
                | Inr q2 \<Rightarrow>
                    Inr (''  '' @ name @ '': '' @ q1 @ ''x in '' @ quoted file1 @ '', '' @ q2
                           @ ''x in '' @ quoted file2))))"

definition report_lines ::
  "string \<Rightarrow> string \<Rightarrow> int dict \<times> int dict \<times> (int \<times> int) dict \<Rightarrow> (string + string) list" where
  "report_lines file1 file2 results =
     (case results of
        (unique_to_file1, unique_to_file2, different_quantities) \<Rightarrow>
          [Inr (''Cards unique to '' @ quoted file1 @ '':'')]
          @ (if unique_to_file1 \<noteq> [] then map unique_line (sort unique_to_file1)
             else [Inr ''  None''])
          @ [Inr ([CHR 0x0A] @ ''Cards unique to '' @ quoted file2 @ '':'')]
          @ (if unique_to_file2 \<noteq> [] then map unique_line (sort unique_to_file2)
             else [Inr ''  None''])
          @ [Inr ([CHR 0x0A] @ ''Cards with different quantities:'')]
          @ (if different_quantities \<noteq> [] then
               map (different_line file1 file2) (sort different_quantities)
             else [Inr ''  None'']))"

text \<open>
  The prints happen in order; the first line that raises ends \<open>main\<close>, and what was printed
  before it stays printed.
\<close>

fun print_all :: "(string + string) list \<Rightarrow> string \<times> unit outcome" where
  "print_all [] = ([], Return ())"
| "print_all (Inl e # rest) = ([], Raise e)"
| "print_all (Inr text # rest) = (case print_all rest of (out, r) \<Rightarrow> (print text @ out, r))"

definition report ::
  "string \<Rightarrow> string \<Rightarrow> int dict \<times> int dict \<times> (int \<times> int) dict \<Rightarrow> string \<times> unit outcome" where
  "report file1 file2 results = print_all (report_lines file1 file2 results)"

text \<open>
  \<open>main\<close> after \<open>argparse\<close> has read the two paths and the optional \<open>--filter\<close> path: the
  text written to the standard output and how the call ends.
\<close>

definition header :: "string \<Rightarrow> string \<Rightarrow> string option \<Rightarrow> string" where
  "header file1 file2 filter_file =
     (if given filter_file then
        print (''Comparing card lists in '' @ quoted file1 @ '' and '' @ quoted file2
                 @ '', filtering cards from '' @ quoted (the filter_file) @ ''...'' @ [CHR 0x0A])
      else
        print (''Comparing card lists in '' @ quoted file1 @ '' and '' @ quoted file2
                 @ ''...'' @ [CHR 0x0A]))"

definition main :: "filesystem \<Rightarrow> string \<Rightarrow> string \<Rightarrow> string option \<Rightarrow> string \<times> unit outcome" where
  "main fs file1 file2 filter_file =
     (case compare_card_lists fs file1 file2 filter_file of
        (out, Exit n) \<Rightarrow> (header file1 file2 filter_file @ out, Exit n)
      | (out, Raise e) \<Rightarrow> (header file1 file2 filter_file @ out, Raise e)
      | (out, Return results) \<Rightarrow>
          (case report file1 file2 results of
             (printed, r) \<Rightarrow> (header file1 file2 filter_file @ out @ printed, r)))"

text \<open>
  The exit status of the process: 0 when \<open>main\<close> returns, 1 after an exception that nothing
  catches.
\<close>

definition exit_status :: "'a outcome \<Rightarrow> int" where
  "exit_status r = (case r of Exit n \<Rightarrow> n | Raise e \<Rightarrow> 1 | Return _ \<Rightarrow> 0)"

subsection \<open>Notions of the specification\<close>

text \<open>
  The quantity token in the specification's words: a text begins with one when it is one or
  more digits, then optionally \<open>x\<close>, then one or more whitespace characters, then anything.
  \<open>quantity_match\<close> above is the program's regular expression; \<open>quantity_match_iff\<close> below
  shows that the two agree.
\<close>

definition begins_with_quantity_token :: "string \<Rightarrow> bool" where
  "begins_with_quantity_token s \<longleftrightarrow>
     (\<exists>ds ws rest. ds \<noteq> [] \<and> (\<forall>c \<in> set ds. isdigit c) \<and> ws \<noteq> [] \<and> (\<forall>c \<in> set ws. isspace c)
        \<and> (s = ds @ ws @ rest \<or> s = ds @ ''x'' @ ws @ rest))"

text \<open>
  The test on the bracketed text: some tag, split at commas and trimmed, is \<open>Sideboard\<close>, or
  the text contains \<open>{noDeck}\<close>.
\<close>

definition excluding_tags :: "string \<Rightarrow> bool" where
  "excluding_tags tags_text \<longleftrightarrow>
     (\<exists>tag \<in> set (split_char tags_text CHR '',''). strip tag = ''Sideboard'')
     \<or> contains tags_text ''{noDeck}''"

text \<open>
  Whether \<open>parse_card_line\<close> raises on a line, and the name and the quantity it returns for a
  line on which it returns.
\<close>

definition parse_raises :: "string \<Rightarrow> bool" where
  "parse_raises line \<longleftrightarrow> (\<exists>e. parse_card_line line = Inl e)"

definition line_name :: "string \<Rightarrow> string" where
  "line_name line = fst (projr (parse_card_line line))"

definition line_quantity :: "string \<Rightarrow> int" where
  "line_quantity line = snd (projr (parse_card_line line))"

subsection \<open>An example file system\<close>

text \<open>
  Two card lists, a filter list, and a filter list whose reading fails after its first line;
  every other path does not exist.
\<close>


definition example_files :: filesystem where
  "example_files path =
     (if path = ''a.txt'' then Lines [''1 Sol Ring'', ''1 Brainstorm'', ''10 Forest'', ''3 /Ice'']
      else if path = ''b.txt'' then Lines [''2 Sol Ring'', ''4 Island'', ''1 Opt'']
      else if path = ''skip.txt'' then Lines [''1 Sol Ring'', ''7 Opt'']
      else if path = ''broken.txt'' then ReadFails [''1 Sol Ring''] ''invalid start byte''
      else NotFound)"

text \<open>
  A file system in which every path is a card list whose second line has a quantity of 4301
  digits.
\<close>

definition long_quantity_line :: string where
  "long_quantity_line = replicate 4301 CHR ''1'' @ '' Opt''"

definition long_files :: filesystem where
  "long_files path = Lines [''1 Sol Ring'', long_quantity_line]"

section \<open>Properties\<close>

subsection \<open>The comparison\<close>

lemma dict_contains_map_of: "dict_contains d k \<longleftrightarrow> map_of d k \<noteq> None"
  by (simp add: dict_contains_def map_of_eq_None_iff)

lemma map_of_filter_keys:
  "map_of (filter (\<lambda>(name, qty). P name) d) k = (if P k then map_of d k else None)"
  by (induction d) auto

lemma distinct_filter_keys:
  "distinct (map fst d) \<Longrightarrow> distinct (map fst (filter P d))"
  by (simp add: distinct_map_filter)

lemma map_of_diff_step:
  "map_of (diff_step cards2 dq (name, qty1)) k =
     (if k = name \<and> (\<exists>qty2. map_of cards2 name = Some qty2 \<and> qty2 \<noteq> qty1)
      then Some (qty1, the (map_of cards2 name)) else map_of dq k)"
  by (auto simp: diff_step_def update_conv' split: option.splits)

lemma distinct_diff_step:
  "distinct (map fst dq) \<Longrightarrow> distinct (map fst (diff_step cards2 dq item))"
  by (cases item) (auto simp: diff_step_def distinct_update split: option.splits)

lemma distinct_diff_loop:
  "distinct (map fst dq) \<Longrightarrow> distinct (map fst (foldl (diff_step cards2) dq cards1))"
  by (induction cards1 arbitrary: dq) (simp_all add: distinct_diff_step)

lemma map_of_diff_loop:
  "distinct (map fst cards1) \<Longrightarrow>
   map_of (foldl (diff_step cards2) dq cards1) k =
     (case map_of cards1 k of
        None \<Rightarrow> map_of dq k
      | Some qty1 \<Rightarrow>
          (case map_of cards2 k of
             None \<Rightarrow> map_of dq k
           | Some qty2 \<Rightarrow> if qty2 \<noteq> qty1 then Some (qty1, qty2) else map_of dq k))"
proof (induction cards1 arbitrary: dq)
  case Nil
  then show ?case by simp
next
  case (Cons item cards1)
  obtain name qty1 where item: "item = (name, qty1)" by (cases item)
  from Cons.prems have d: "distinct (map fst cards1)" and nin: "name \<notin> fst ` set cards1"
    by (simp_all add: item)
  from nin have none: "map_of cards1 name = None"
    by (simp add: map_of_eq_None_iff)
  show ?case
  proof (cases "k = name")
    case True
    then show ?thesis
      using Cons.IH [OF d, of "diff_step cards2 dq (name, qty1)"] none
      by (auto simp: item map_of_diff_step split: option.splits)
  next
    case False
    then show ?thesis
      using Cons.IH [OF d, of "diff_step cards2 dq (name, qty1)"]
      by (simp add: item map_of_diff_step split: option.splits)
  qed
qed

text \<open>
  Claim C1. For all card mappings \<open>A\<close> and \<open>B\<close> (dictionaries, so with distinct keys; they are
  the mappings after the optional filtering), the comparison returns three dictionaries:
  a name has quantity \<open>q\<close> in the first exactly when it has quantity \<open>q\<close> in \<open>A\<close> and is absent
  from \<open>B\<close>; in the second exactly when it has quantity \<open>q\<close> in \<open>B\<close> and is absent from \<open>A\<close>;
  it has the pair \<open>(q1, q2)\<close> in the third exactly when it has quantity \<open>q1\<close> in \<open>A\<close>, \<open>q2\<close> in
  \<open>B\<close> and \<open>q1 \<noteq> q2\<close>. A name with the same quantity in both is in none of the three. For
  \<open>A = {"Sol Ring": 1, "Brainstorm": 1}\<close> and \<open>B = {"Sol Ring": 2}\<close> the results are
  \<open>{"Brainstorm": 1}\<close>, \<open>{}\<close> and \<open>{"Sol Ring": (1, 2)}\<close>.
\<close>

theorem compare_results:
  assumes "distinct (map fst A)" and "distinct (map fst B)"
    and "compare_mappings A B = (unique_to_A, unique_to_B, differing)"
  shows "(\<forall>n q. map_of unique_to_A n = Some q \<longleftrightarrow> map_of A n = Some q \<and> map_of B n = None)
       \<and> (\<forall>n q. map_of unique_to_B n = Some q \<longleftrightarrow> map_of B n = Some q \<and> map_of A n = None)
       \<and> (\<forall>n q1 q2. map_of differing n = Some (q1, q2) \<longleftrightarrow>
              map_of A n = Some q1 \<and> map_of B n = Some q2 \<and> q1 \<noteq> q2)
       \<and> (\<forall>n q. map_of A n = Some q \<and> map_of B n = Some q \<longrightarrow>
              \<not> dict_contains unique_to_A n \<and> \<not> dict_contains unique_to_B n
              \<and> \<not> dict_contains differing n)
       \<and> distinct (map fst unique_to_A) \<and> distinct (map fst unique_to_B)
       \<and> distinct (map fst differing)
       \<and> compare_mappings [(''Sol Ring'', 1), (''Brainstorm'', 1)] [(''Sol Ring'', 2)]
           = ([(''Brainstorm'', 1)], [], [(''Sol Ring'', (1, 2))])"
proof -
  have uA: "unique_to_A = filter (\<lambda>(name, qty). \<not> dict_contains B name) A"
    and uB: "unique_to_B = filter (\<lambda>(name, qty). \<not> dict_contains A name) B"
    and df: "differing = foldl (diff_step B) [] A"
    using assms(3) by (simp_all add: compare_mappings_def)
  have mA: "map_of unique_to_A n = (if map_of B n = None then map_of A n else None)" for n
    unfolding uA by (simp add: map_of_filter_keys dict_contains_map_of)
  have mB: "map_of unique_to_B n = (if map_of A n = None then map_of B n else None)" for n
    unfolding uB by (simp add: map_of_filter_keys dict_contains_map_of)
  have mD: "map_of differing n =
      (case map_of A n of None \<Rightarrow> None
       | Some q1 \<Rightarrow> (case map_of B n of None \<Rightarrow> None
                     | Some q2 \<Rightarrow> if q2 \<noteq> q1 then Some (q1, q2) else None))" for n
    unfolding df using map_of_diff_loop [OF assms(1), of B "[]" n]
    by (simp split: option.splits)
  have 1: "\<forall>n q. map_of unique_to_A n = Some q \<longleftrightarrow> map_of A n = Some q \<and> map_of B n = None"
    by (simp add: mA)
  have 2: "\<forall>n q. map_of unique_to_B n = Some q \<longleftrightarrow> map_of B n = Some q \<and> map_of A n = None"
    by (simp add: mB)
  have 3: "\<forall>n q1 q2. map_of differing n = Some (q1, q2) \<longleftrightarrow>
              map_of A n = Some q1 \<and> map_of B n = Some q2 \<and> q1 \<noteq> q2"
    by (auto simp: mD split: option.splits)
  have 4: "\<forall>n q. map_of A n = Some q \<and> map_of B n = Some q \<longrightarrow>
              \<not> dict_contains unique_to_A n \<and> \<not> dict_contains unique_to_B n
              \<and> \<not> dict_contains differing n"
    by (simp add: dict_contains_map_of mA mB mD)
  have 5: "distinct (map fst unique_to_A)" "distinct (map fst unique_to_B)"
    unfolding uA uB using assms(1,2) by (simp_all add: distinct_filter_keys)
  have 6: "distinct (map fst differing)"
    unfolding df by (rule distinct_diff_loop) simp
  have 7: "compare_mappings [(''Sol Ring'', 1), (''Brainstorm'', 1)] [(''Sol Ring'', 2)]
           = ([(''Brainstorm'', 1)], [], [(''Sol Ring'', (1, 2))])"
    by code_simp
  from 1 2 3 4 5 6 7 show ?thesis by blast
qed

theorem compare_results_witness:
  "distinct (map fst [(''Sol Ring'', 1::int), (''Brainstorm'', 1)])
   \<and> distinct (map fst [(''Sol Ring'', 2::int)])
   \<and> compare_mappings [(''Sol Ring'', 1), (''Brainstorm'', 1)] [(''Sol Ring'', 2)]
       = ([(''Brainstorm'', 1)], [], [(''Sol Ring'', (1, 2))])
   \<and> map_of [(''Brainstorm'', 1::int)] ''Brainstorm'' = Some 1
   \<and> map_of [(''Sol Ring'', (1::int, 2::int))] ''Sol Ring'' = Some (1, 2)
   \<and> map_of [(''Sol Ring'', 1::int), (''Brainstorm'', 1)] ''Sol Ring'' = Some 1
   \<and> map_of [(''Sol Ring'', 2::int)] ''Sol Ring'' = Some 2"
proof -
  have d1: "distinct (map fst [(''Sol Ring'', 1::int), (''Brainstorm'', 1)])" by simp
  have d2: "distinct (map fst [(''Sol Ring'', 2::int)])" by simp
  have c: "compare_mappings [(''Sol Ring'', 1), (''Brainstorm'', 1)] [(''Sol Ring'', 2)]
       = ([(''Brainstorm'', 1)], [], [(''Sol Ring'', (1, 2))])" by code_simp
  from compare_results [OF d1 d2 c] d1 d2 c show ?thesis by simp
qed

subsection \<open>Strings and \<open>normalize_card_name\<close>\<close>

lemma startswith_iff: "startswith s p \<longleftrightarrow> (\<exists>q. s = p @ q)"
  by (induction s p rule: startswith.induct) auto

lemma contains_iff: "contains s sub \<longleftrightarrow> (\<exists>p q. s = p @ sub @ q)"
proof (induction s)
  case Nil
  then show ?case by simp
next
  case (Cons c cs)
  show ?case
  proof
    assume "contains (c # cs) sub"
    then consider "startswith (c # cs) sub" | "contains cs sub" by auto
    then show "\<exists>p q. c # cs = p @ sub @ q"
    proof cases
      case 1
      then obtain q where "c # cs = sub @ q" by (auto simp: startswith_iff)
      then have "c # cs = [] @ sub @ q" by simp
      then show ?thesis by blast
    next
      case 2
      then obtain p q where "cs = p @ sub @ q" using Cons.IH by blast
      then have "c # cs = (c # p) @ sub @ q" by simp
      then show ?thesis by blast
    qed
  next
    assume "\<exists>p q. c # cs = p @ sub @ q"
    then obtain p q where pq: "c # cs = p @ sub @ q" by blast
    show "contains (c # cs) sub"
    proof (cases p)
      case Nil
      with pq have "startswith (c # cs) sub" by (auto simp: startswith_iff)
      then show ?thesis by simp
    next
      case (Cons a p')
      with pq have "cs = p' @ sub @ q" by simp
      then have "contains cs sub" using Cons.IH by blast
      then show ?thesis by simp
    qed
  qed
qed

lemma contains_char: "contains s [c] \<longleftrightarrow> c \<in> set s"
  by (induction s) auto

lemma split_first_first:
  assumes "s = pre @ sep @ post" and "sep \<noteq> []"
    and "\<forall>p q. s = p @ sep @ q \<longrightarrow> length pre \<le> length p"
  shows "split_first s sep = pre"
  using assms
proof (induction pre arbitrary: s)
  case Nil
  then have "startswith s sep" by (auto simp: startswith_iff)
  moreover from Nil have "s \<noteq> []" by simp
  ultimately show ?case by (cases s) simp_all
next
  case (Cons c pre)
  let ?t = "pre @ sep @ post"
  have s: "s = c # ?t" using Cons.prems(1) by simp
  have "\<not> startswith s sep"
  proof
    assume "startswith s sep"
    then obtain q where "s = [] @ sep @ q" by (auto simp: startswith_iff)
    with Cons.prems(3) have "length (c # pre) \<le> length ([]::string)" by blast
    then show False by simp
  qed
  moreover have "split_first ?t sep = pre"
  proof (rule Cons.IH [OF refl Cons.prems(2)], intro allI impI)
    fix p q assume "?t = p @ sep @ q"
    then have "s = (c # p) @ sep @ q" using s by simp
    with Cons.prems(3) have "length (c # pre) \<le> length (c # p)" by blast
    then show "length pre \<le> length p" by simp
  qed
  ultimately show ?case by (simp add: s)
qed

lemma split_first_char:
  "c \<notin> set pre \<Longrightarrow> split_first (pre @ c # post) [c] = pre"
  by (induction pre) auto

lemma split_first_absent: "\<not> contains s sep \<Longrightarrow> split_first s sep = s"
  by (induction s) auto

text \<open>
  Claim C2, as the code has it. When the name contains \<open>" // "\<close>, normalization keeps the text
  before its first occurrence, trimmed. Otherwise, when the name contains a \<open>/\<close> at all,
  with or without spaces around it, normalization keeps the text before the first \<open>/\<close>,
  trimmed. A name without \<open>/\<close> is left unchanged. So
  \<open>"Bala Ged Recovery // Bala Ged Sanctuary"\<close> yields \<open>"Bala Ged Recovery"\<close>, \<open>"Fire/Ice"\<close>
  yields \<open>"Fire"\<close>, and \<open>"Fire / Ice"\<close> yields \<open>"Fire"\<close> too.
\<close>

theorem normalize_card_name_cases:
  "(s = pre @ '' // '' @ post \<and> (\<forall>p q. s = p @ '' // '' @ q \<longrightarrow> length pre \<le> length p)
      \<longrightarrow> normalize_card_name s = strip pre)
   \<and> ((\<nexists>p q. s = p @ '' // '' @ q) \<and> s = pre @ ''/'' @ post \<and> CHR ''/'' \<notin> set pre
      \<longrightarrow> normalize_card_name s = strip pre)
   \<and> (CHR ''/'' \<notin> set s \<longrightarrow> normalize_card_name s = s)
   \<and> normalize_card_name ''Bala Ged Recovery // Bala Ged Sanctuary'' = ''Bala Ged Recovery''
   \<and> normalize_card_name ''Fire/Ice'' = ''Fire''
   \<and> normalize_card_name ''Fire / Ice'' = ''Fire''"
proof (intro conjI impI)
  assume a: "s = pre @ '' // '' @ post \<and> (\<forall>p q. s = p @ '' // '' @ q \<longrightarrow> length pre \<le> length p)"
  then have "contains s '' // ''" using contains_iff by blast
  moreover have "split_first s '' // '' = pre"
    using a by (intro split_first_first [where post = post]) simp_all
  ultimately show "normalize_card_name s = strip pre"
    by (simp add: normalize_card_name_def)
next
  assume a: "(\<nexists>p q. s = p @ '' // '' @ q) \<and> s = pre @ ''/'' @ post \<and> CHR ''/'' \<notin> set pre"
  then have "\<not> contains s '' // ''" using contains_iff by blast
  moreover from a have "contains s ''/''" by (simp add: contains_char)
  moreover from a have "split_first s ''/'' = pre" by (simp add: split_first_char)
  ultimately show "normalize_card_name s = strip pre"
    by (simp add: normalize_card_name_def)
next
  assume a: "CHR ''/'' \<notin> set s"
  then have "\<not> contains s ''/''" by (simp add: contains_char)
  moreover have "\<not> contains s '' // ''"
  proof
    assume "contains s '' // ''"
    then obtain p q where "s = p @ '' // '' @ q" using contains_iff by blast
    then have "CHR ''/'' \<in> set s" by simp
    with a show False by simp
  qed
  ultimately show "normalize_card_name s = s" by (simp add: normalize_card_name_def)
next
  show "normalize_card_name ''Bala Ged Recovery // Bala Ged Sanctuary'' = ''Bala Ged Recovery''"
    by code_simp
next
  show "normalize_card_name ''Fire/Ice'' = ''Fire''" by code_simp
next
  show "normalize_card_name ''Fire / Ice'' = ''Fire''" by code_simp
qed

theorem normalize_card_name_cases_witness:
  "normalize_card_name ''Fire / Ice'' = strip ''Fire ''
   \<and> normalize_card_name ''Sol Ring'' = ''Sol Ring''
   \<and> normalize_card_name ''A // B // C'' = strip ''A''"
proof -
  have n: "\<nexists>p q. ''Fire / Ice'' = p @ '' // '' @ q"
  proof -
    have "\<not> contains ''Fire / Ice'' '' // ''" by code_simp
    then show ?thesis using contains_iff by blast
  qed
  have 1: "normalize_card_name ''Fire / Ice'' = strip ''Fire ''"
    using normalize_card_name_cases [of "''Fire / Ice''" "''Fire ''" "'' Ice''"] n by simp
  have 2: "normalize_card_name ''Sol Ring'' = ''Sol Ring''"
    using normalize_card_name_cases [of "''Sol Ring''"] by simp
  have m: "\<forall>p q. ''A // B // C'' = p @ '' // '' @ q \<longrightarrow> length ''A'' \<le> length p"
  proof (intro allI impI)
    fix p q assume "''A // B // C'' = p @ '' // '' @ q"
    then have "p \<noteq> []" by auto
    then show "length ''A'' \<le> length p" by (cases p) simp_all
  qed
  have 3: "normalize_card_name ''A // B // C'' = strip ''A''"
    using normalize_card_name_cases [of "''A // B // C''" "''A''" "''B // C''"] m by simp
  from 1 2 3 show ?thesis by simp
qed

text \<open>
  The name \<open>"Fire / Ice"\<close>, whose only slash has a space on each side, is not left
  unchanged.
\<close>

theorem normalize_card_name_spaced_slash:
  "normalize_card_name ''Fire / Ice'' \<noteq> ''Fire / Ice''"
  by code_simp

subsection \<open>Trimming and the tag list\<close>

lemma isspace_not_digit: "isspace c \<Longrightarrow> \<not> isdigit c"
  by (auto simp: isspace_def isdigit_def)

lemma isspace_not_special:
  "isspace c \<Longrightarrow> c \<noteq> CHR ''['' \<and> c \<noteq> CHR '']'' \<and> c \<noteq> CHR ''x'' \<and> c \<noteq> CHR ''/'' \<and> c \<noteq> CHR ''(''"
  by (auto simp: isspace_def)

lemma strip_eq_Nil_iff: "strip s = [] \<longleftrightarrow> (\<forall>c \<in> set s. isspace c)"
proof -
  let ?t = "dropWhile isspace s"
  have "strip s = [] \<longleftrightarrow> (\<forall>c \<in> set ?t. isspace c)"
    by (simp add: strip_def)
  also have "\<dots> \<longleftrightarrow> ?t = []"
  proof
    assume a: "\<forall>c \<in> set ?t. isspace c"
    show "?t = []"
    proof (rule ccontr)
      assume n: "?t \<noteq> []"
      then have "\<not> isspace (hd ?t)" by (rule hd_dropWhile)
      moreover have "hd ?t \<in> set ?t" using n by simp
      ultimately show False using a by blast
    qed
  next
    assume "?t = []"
    then show "\<forall>c \<in> set ?t. isspace c" by (auto dest: set_dropWhileD)
  qed
  also have "\<dots> \<longleftrightarrow> (\<forall>c \<in> set s. isspace c)" by simp
  finally show ?thesis .
qed

lemma dropWhile_snoc_keep: "\<not> P c \<Longrightarrow> \<exists>ys. dropWhile P (xs @ [c]) = ys @ [c]"
  by (induction xs) auto

lemma strip_Cons_keep:
  assumes "\<not> isspace c"
  shows "\<exists>r. strip (c # cs) = c # r"
proof -
  obtain ys where "dropWhile isspace (rev cs @ [c]) = ys @ [c]"
    using dropWhile_snoc_keep [of isspace c "rev cs"] assms by blast
  then have "strip (c # cs) = c # rev ys" using assms by (simp add: strip_def)
  then show ?thesis by blast
qed

lemma strip_decompose: "\<exists>ws. dropWhile isspace s = strip s @ ws \<and> (\<forall>c \<in> set ws. isspace c)"
proof -
  let ?t = "dropWhile isspace s"
  have "?t = rev (dropWhile isspace (rev ?t)) @ rev (takeWhile isspace (rev ?t))"
    by (metis rev_append rev_rev_ident takeWhile_dropWhile_id)
  then have "?t = strip s @ rev (takeWhile isspace (rev ?t))"
    by (simp add: strip_def)
  moreover have "\<forall>c \<in> set (rev (takeWhile isspace (rev ?t))). isspace c"
    by (auto dest: set_takeWhileD)
  ultimately show ?thesis by blast
qed

lemma tags_search_no_bracket: "CHR ''['' \<notin> set s \<Longrightarrow> tags_search s = None"
  by (induction s) auto

lemma tags_search_dropWhile: "tags_search (dropWhile isspace s) = tags_search s"
  by (induction s) (auto dest: isspace_not_special)

lemma tags_search_append_space:
  assumes "\<forall>c \<in> set ws. isspace c"
  shows "tags_search (a @ ws) = tags_search a"
proof (induction a)
  case Nil
  have "CHR ''['' \<notin> set ws" using assms isspace_not_special by blast
  then show ?case by (simp add: tags_search_no_bracket)
next
  case (Cons c cs)
  let ?P = "\<lambda>x. x \<noteq> CHR '']''"
  have ws: "\<forall>x \<in> set ws. ?P x" using assms isspace_not_special by blast
  show ?case
  proof (cases "CHR '']'' \<in> set cs")
    case True
    then have "takeWhile ?P (cs @ ws) = takeWhile ?P cs"
      and "dropWhile ?P (cs @ ws) = dropWhile ?P cs @ ws"
      and "dropWhile ?P cs \<noteq> []"
      by (auto simp: takeWhile_append dropWhile_append)
    then show ?thesis using Cons.IH by simp
  next
    case False
    then have "dropWhile ?P (cs @ ws) = []" and "dropWhile ?P cs = []"
      using ws by auto
    then show ?thesis using Cons.IH by simp
  qed
qed

lemma tags_search_strip: "tags_search (strip s) = tags_search s"
proof -
  obtain ws where "dropWhile isspace s = strip s @ ws" and "\<forall>c \<in> set ws. isspace c"
    using strip_decompose by blast
  then have "tags_search (dropWhile isspace s) = tags_search (strip s)"
    by (simp add: tags_search_append_space)
  then show ?thesis by (simp add: tags_search_dropWhile)
qed

lemma tags_search_Some:
  "tags_search s = Some t \<Longrightarrow>
     \<exists>pre post. s = pre @ ''['' @ t @ '']'' @ post \<and> t \<noteq> [] \<and> CHR '']'' \<notin> set t"
proof (induction s)
  case Nil
  then show ?case by simp
next
  case (Cons c cs)
  let ?P = "\<lambda>x. x \<noteq> CHR '']''"
  show ?case
  proof (cases "c = CHR ''['' \<and> takeWhile ?P cs \<noteq> [] \<and> dropWhile ?P cs \<noteq> []")
    case True
    with Cons.prems have t: "t = takeWhile ?P cs" by simp
    from True have "hd (dropWhile ?P cs) = CHR '']''"
      using hd_dropWhile [of ?P cs] by simp
    with True obtain post where "dropWhile ?P cs = CHR '']'' # post"
      by (cases "dropWhile ?P cs") auto
    then have "cs = t @ '']'' @ post"
      using takeWhile_dropWhile_id [of ?P cs] t by simp
    with True have "c # cs = [] @ ''['' @ t @ '']'' @ post" by simp
    moreover have "t \<noteq> []" using True t by simp
    moreover have "CHR '']'' \<notin> set t" using t by (auto dest: set_takeWhileD)
    ultimately show ?thesis by blast
  next
    case False
    with Cons.prems have "tags_search cs = Some t" by (auto split: if_splits)
    then obtain pre post where "cs = pre @ ''['' @ t @ '']'' @ post" "t \<noteq> []" "CHR '']'' \<notin> set t"
      using Cons.IH by blast
    then have "c # cs = (c # pre) @ ''['' @ t @ '']'' @ post" by simp
    then show ?thesis using \<open>t \<noteq> []\<close> \<open>CHR '']'' \<notin> set t\<close> by blast
  qed
qed

lemma tags_search_first_pair:
  assumes "CHR ''['' \<notin> set pre" and "CHR '']'' \<notin> set t" and "t \<noteq> []"
  shows "tags_search (pre @ ''['' @ t @ '']'' @ post) = Some t"
  using assms(1)
proof (induction pre)
  case Nil
  let ?P = "\<lambda>x. x \<noteq> CHR '']''"
  have "takeWhile ?P (t @ CHR '']'' # post) = t" and "dropWhile ?P (t @ CHR '']'' # post) = CHR '']'' # post"
    using assms(2) by (auto simp: takeWhile_tail dropWhile_append3)
  then show ?case using assms(3) by simp
next
  case (Cons c pre)
  then have "c \<noteq> CHR ''[''" and "tags_search (pre @ ''['' @ t @ '']'' @ post) = Some t"
    by auto
  then show ?case by simp
qed

lemma excluding_tags_nonempty: "excluding_tags t \<Longrightarrow> t \<noteq> []"
  by (auto simp: excluding_tags_def strip_def)

lemma tags_exclude_iff:
  "tags_exclude line \<longleftrightarrow> (\<exists>t. tags_search line = Some t \<and> excluding_tags t)"
proof (cases "tags_search line")
  case None
  then show ?thesis by (simp add: tags_exclude_def)
next
  case (Some t)
  then obtain pre post where "line = pre @ ''['' @ t @ '']'' @ post"
    using tags_search_Some by blast
  then have "CHR ''['' \<in> set line" and "CHR '']'' \<in> set line" by simp_all
  then show ?thesis using Some by (simp add: tags_exclude_def excluding_tags_def contains_char)
qed

lemma parse_card_line_tagged:
  assumes "tags_search raw = Some t" and "excluding_tags t"
  shows "parse_card_line raw = Inr ([], 0)"
proof -
  have "tags_exclude (strip raw)"
    using assms by (simp add: tags_exclude_iff tags_search_strip)
  then show ?thesis by (simp add: parse_card_line_def Let_def)
qed

text \<open>
  Claim C6. When the search for a bracketed tag list in a line finds the text \<open>tags_text\<close>
  and one of its comma-separated, trimmed tags is exactly \<open>Sideboard\<close>, or \<open>tags_text\<close>
  contains \<open>{noDeck}\<close>, the line is skipped, whatever its quantity and name. The same holds
  in terms of the text alone: when \<open>tags_text\<close> stands between the first \<open>[\<close> of the line and
  the first \<open>]\<close> after it. A line with other tags is parsed.
\<close>

theorem tagged_line_skipped:
  "(tags_search raw = Some tags_text \<and> excluding_tags tags_text
      \<longrightarrow> parse_card_line raw = Inr ([], 0))
   \<and> (raw = pre @ ''['' @ tags_text @ '']'' @ post \<and> CHR ''['' \<notin> set pre
        \<and> CHR '']'' \<notin> set tags_text \<and> excluding_tags tags_text
      \<longrightarrow> parse_card_line raw = Inr ([], 0))
   \<and> parse_card_line ''4 Sol Ring (M10) 1 [Foo,Sideboard]'' = Inr ([], 0)
   \<and> parse_card_line ''4 Sol Ring (M10) 1 [Foo{noDeck}]'' = Inr ([], 0)
   \<and> parse_card_line ''4 Sol Ring (M10) 1 [Foo]'' = Inr (''Sol Ring'', 4)"
proof (intro conjI impI)
  assume "tags_search raw = Some tags_text \<and> excluding_tags tags_text"
  then show "parse_card_line raw = Inr ([], 0)" by (simp add: parse_card_line_tagged)
next
  assume a: "raw = pre @ ''['' @ tags_text @ '']'' @ post \<and> CHR ''['' \<notin> set pre
        \<and> CHR '']'' \<notin> set tags_text \<and> excluding_tags tags_text"
  then have "tags_text \<noteq> []" by (simp add: excluding_tags_nonempty)
  with a have "tags_search raw = Some tags_text"
    using tags_search_first_pair [of pre tags_text post] by simp
  with a show "parse_card_line raw = Inr ([], 0)" by (simp add: parse_card_line_tagged)
next
  show "parse_card_line ''4 Sol Ring (M10) 1 [Foo,Sideboard]'' = Inr ([], 0)" by code_simp
next
  show "parse_card_line ''4 Sol Ring (M10) 1 [Foo{noDeck}]'' = Inr ([], 0)" by code_simp
next
  show "parse_card_line ''4 Sol Ring (M10) 1 [Foo]'' = Inr (''Sol Ring'', 4)" by code_simp
qed

theorem tagged_line_skipped_witness:
  "tags_search ''1 Counterspell [Foo, Sideboard]'' = Some ''Foo, Sideboard''
   \<and> excluding_tags ''Foo, Sideboard''
   \<and> parse_card_line ''1 Counterspell [Foo, Sideboard]'' = Inr ([], 0)
   \<and> excluding_tags ''{noDeck}''
   \<and> parse_card_line (''2x Opt (M21) 59 '' @ ''['' @ ''{noDeck}'' @ '']'' @ '' extra'') = Inr ([], 0)"
proof -
  have 1: "tags_search ''1 Counterspell [Foo, Sideboard]'' = Some ''Foo, Sideboard''"
    by code_simp
  have 2: "excluding_tags ''Foo, Sideboard''" by code_simp
  have 3: "excluding_tags ''{noDeck}''" by code_simp
  have 4: "CHR ''['' \<notin> set ''2x Opt (M21) 59 ''" by simp
  have 5: "CHR '']'' \<notin> set ''{noDeck}''" by simp
  from tagged_line_skipped [of "''1 Counterspell [Foo, Sideboard]''" "''Foo, Sideboard''"] 1 2
  have a: "parse_card_line ''1 Counterspell [Foo, Sideboard]'' = Inr ([], 0)" by blast
  from tagged_line_skipped [of "''2x Opt (M21) 59 '' @ ''['' @ ''{noDeck}'' @ '']'' @ '' extra''"
      "''{noDeck}''" "''2x Opt (M21) 59 ''" "'' extra''"] 3 4 5
  have b: "parse_card_line (''2x Opt (M21) 59 '' @ ''['' @ ''{noDeck}'' @ '']'' @ '' extra'') = Inr ([], 0)"
    by blast
  from 1 2 3 a b show ?thesis by blast
qed

subsection \<open>The quantity token\<close>

lemma quantity_match_Some:
  assumes "quantity_match s = Some (ds, rest)"
  shows "ds \<noteq> [] \<and> (\<forall>c \<in> set ds. isdigit c)
         \<and> (\<exists>ws. ws \<noteq> [] \<and> (\<forall>c \<in> set ws. isspace c)
                \<and> (s = ds @ ws @ rest \<or> s = ds @ ''x'' @ ws @ rest))
         \<and> (rest = [] \<or> \<not> isspace (hd rest))"
proof -
  define after_digits where "after_digits = dropWhile isdigit s"
  define after_x where
    "after_x = (case after_digits of [] \<Rightarrow> [] | c # cs \<Rightarrow> if c = CHR ''x'' then cs else c # cs)"
  from assms have ds: "ds = takeWhile isdigit s" and ne: "ds \<noteq> []"
    and ws: "takeWhile isspace after_x \<noteq> []" and rest: "rest = dropWhile isspace after_x"
    by (auto simp: quantity_match_def Let_def after_x_def after_digits_def split: if_splits)
  have s: "s = ds @ after_digits" by (simp add: ds after_digits_def)
  have ax: "after_digits = after_x \<or> after_digits = ''x'' @ after_x"
    by (auto simp: after_x_def split: list.splits)
  have sp: "after_x = takeWhile isspace after_x @ rest" by (simp add: rest)
  have "\<forall>c \<in> set (takeWhile isspace after_x). isspace c" by (auto dest: set_takeWhileD)
  with ws sp ax s
  have "\<exists>ws. ws \<noteq> [] \<and> (\<forall>c \<in> set ws. isspace c)
                \<and> (s = ds @ ws @ rest \<or> s = ds @ ''x'' @ ws @ rest)"
    by metis
  moreover have "\<forall>c \<in> set ds. isdigit c" by (auto simp: ds dest: set_takeWhileD)
  moreover have "rest = [] \<or> \<not> isspace (hd rest)"
    using hd_dropWhile [of isspace after_x] by (auto simp: rest)
  ultimately show ?thesis using ne by blast
qed

lemma quantity_match_token:
  assumes "begins_with_quantity_token s"
  shows "quantity_match s \<noteq> None"
proof -
  from assms obtain ds ws rest where ds: "ds \<noteq> []" "\<forall>c \<in> set ds. isdigit c"
    and ws: "ws \<noteq> []" "\<forall>c \<in> set ws. isspace c"
    and s: "s = ds @ ws @ rest \<or> s = ds @ ''x'' @ ws @ rest"
    by (auto simp: begins_with_quantity_token_def)
  from ws obtain w ws' where w: "ws = w # ws'" "isspace w" by (cases ws) auto
  then have nw: "\<not> isdigit w" "w \<noteq> CHR ''x''"
    using isspace_not_digit isspace_not_special by blast+
  have nx: "\<not> isdigit CHR ''x''" by (simp add: isdigit_def)
  from s show ?thesis
  proof
    assume "s = ds @ ws @ rest"
    then have s': "s = ds @ w # (ws' @ rest)" by (simp add: w)
    have "takeWhile isdigit s = ds" and "dropWhile isdigit s = w # (ws' @ rest)"
      unfolding s' using ds nw by (simp_all add: takeWhile_tail dropWhile_append3)
    then show ?thesis using ds w nw by (simp add: quantity_match_def Let_def)
  next
    assume "s = ds @ ''x'' @ ws @ rest"
    then have s': "s = ds @ CHR ''x'' # (w # ws' @ rest)" by (simp add: w)
    have "takeWhile isdigit s = ds" and "dropWhile isdigit s = CHR ''x'' # (w # ws' @ rest)"
      unfolding s' using ds nx by (simp_all add: takeWhile_tail dropWhile_append3)
    then show ?thesis using ds w by (simp add: quantity_match_def Let_def)
  qed
qed

lemma quantity_match_iff: "quantity_match s \<noteq> None \<longleftrightarrow> begins_with_quantity_token s"
proof
  assume "quantity_match s \<noteq> None"
  then obtain ds rest where "quantity_match s = Some (ds, rest)" by auto
  from quantity_match_Some [OF this] show "begins_with_quantity_token s"
    unfolding begins_with_quantity_token_def by blast
next
  assume "begins_with_quantity_token s"
  then show "quantity_match s \<noteq> None" by (rule quantity_match_token)
qed

lemma parse_card_line_no_quantity:
  "quantity_match (strip raw) = None \<Longrightarrow> parse_card_line raw = Inr ([], 0)"
  by (simp add: parse_card_line_def Let_def)

text \<open>
  Claim C7. A line that, once trimmed, does not begin with a quantity token (one or more
  digits, optionally \<open>x\<close>, then whitespace) is skipped: the parser returns the empty name and the
  quantity zero. Examples: no number, an upper-case \<open>X\<close>, no whitespace after the \<open>x\<close>, the \<open>x\<close>
  in front, digits alone.
\<close>

theorem no_quantity_token_skipped:
  "(\<not> begins_with_quantity_token (strip raw) \<longrightarrow> parse_card_line raw = Inr ([], 0))
   \<and> parse_card_line ''Sol Ring'' = Inr ([], 0)
   \<and> parse_card_line ''3X Sol Ring'' = Inr ([], 0)
   \<and> parse_card_line ''3xSol Ring'' = Inr ([], 0)
   \<and> parse_card_line ''x3 Sol Ring'' = Inr ([], 0)
   \<and> parse_card_line ''3'' = Inr ([], 0)"
proof (intro conjI impI)
  assume "\<not> begins_with_quantity_token (strip raw)"
  then have "quantity_match (strip raw) = None" using quantity_match_iff by blast
  then show "parse_card_line raw = Inr ([], 0)" by (rule parse_card_line_no_quantity)
qed code_simp+

theorem no_quantity_token_skipped_witness:
  "\<not> begins_with_quantity_token (strip ''Sol Ring (M10) 1'')
   \<and> parse_card_line ''Sol Ring (M10) 1'' = Inr ([], 0)"
proof -
  have "quantity_match (strip ''Sol Ring (M10) 1'') = None" by code_simp
  then have n: "\<not> begins_with_quantity_token (strip ''Sol Ring (M10) 1'')"
    using quantity_match_iff by blast
  with no_quantity_token_skipped [of "''Sol Ring (M10) 1''"] show ?thesis by blast
qed

subsection \<open>What \<open>parse_card_line\<close> returns and when it raises\<close>

lemma digit_value_nonneg: "isdigit c \<Longrightarrow> 0 \<le> digit_value c"
  by (auto simp: isdigit_def digit_value_def)

lemma foldl_digits_nonneg:
  "0 \<le> a \<Longrightarrow> \<forall>c \<in> set ds. isdigit c \<Longrightarrow> 0 \<le> foldl (\<lambda>a c. 10 * a + digit_value c) a ds"
proof (induction ds arbitrary: a)
  case Nil
  then show ?case by simp
next
  case (Cons d ds)
  then have "0 \<le> 10 * a + digit_value d" using digit_value_nonneg [of d] by simp
  then show ?case using Cons by simp
qed

lemma digits_value_nonneg: "\<forall>c \<in> set ds. isdigit c \<Longrightarrow> 0 \<le> digits_value ds"
  unfolding digits_value_def by (rule foldl_digits_nonneg) simp_all

lemma foldl_zeros:
  "set ds \<subseteq> {CHR ''0''} \<Longrightarrow> foldl (\<lambda>a c. 10 * a + digit_value c) 0 ds = 0"
  by (induction ds) (auto simp: digit_value_def)

lemma digits_value_zeros: "set ds \<subseteq> {CHR ''0''} \<Longrightarrow> digits_value ds = 0"
  unfolding digits_value_def by (rule foldl_zeros)

lemma int_of_digits_within:
  "length ds \<le> int_max_str_digits \<Longrightarrow> int_of_digits ds = Inr (digits_value ds)"
  by (simp add: int_of_digits_def)

lemma int_of_digits_Inl_iff:
  "(\<exists>e. int_of_digits ds = Inl e) \<longleftrightarrow> int_max_str_digits < length ds"
  by (simp add: int_of_digits_def)

lemma quantity_match_Nil: "quantity_match [] = None"
  by (simp add: quantity_match_def)

lemma normalize_card_name_Nil:
  assumes "\<not> isspace c" and "normalize_card_name (c # r) = []"
  shows "c = CHR ''/''"
proof (rule ccontr)
  assume n: "c \<noteq> CHR ''/''"
  have sp: "c \<noteq> CHR '' ''" using assms(1) by (auto simp: isspace_def)
  have 1: "split_first (c # r) '' // '' = c # split_first r '' // ''" using sp by simp
  have 2: "split_first (c # r) ''/'' = c # split_first r ''/''" using n by simp
  have "strip (c # t) \<noteq> []" for t using assms(1) by (simp add: strip_eq_Nil_iff)
  then have "normalize_card_name (c # r) \<noteq> []"
    unfolding normalize_card_name_def 1 2 by simp
  with assms(2) show False by simp
qed

text \<open>The name found after the quantity token, for a text that follows the token.\<close>

lemma name_after_token_nonempty:
  assumes "\<not> isspace c" and "c \<noteq> CHR ''(''" and "c \<noteq> CHR ''/''"
  shows "normalize_card_name (strip (takeWhile (\<lambda>x. x \<noteq> CHR ''('') (c # r))) \<noteq> []"
proof -
  obtain t where "strip (takeWhile (\<lambda>x. x \<noteq> CHR ''('') (c # r)) = c # t"
    using strip_Cons_keep [OF assms(1)] assms(2) by auto
  then show ?thesis using normalize_card_name_Nil [OF assms(1)] assms(3) by auto
qed

lemma parse_card_line_after_token:
  assumes "quantity_match (strip raw) = Some (ds, c # r)" and "\<not> tags_exclude (strip raw)"
    and "length ds \<le> int_max_str_digits" and "c \<noteq> CHR ''(''"
  shows "parse_card_line raw
           = Inr (normalize_card_name (strip (takeWhile (\<lambda>x. x \<noteq> CHR ''('') (c # r))),
                  digits_value ds)"
proof -
  have "strip raw \<noteq> []" using assms(1) quantity_match_Nil by auto
  then show ?thesis
    using assms by (simp add: parse_card_line_def Let_def int_of_digits_within card_name_match_def)
qed

lemma parse_card_line_Inl_iff:
  "(\<exists>e. parse_card_line raw = Inl e) \<longleftrightarrow>
     \<not> tags_exclude (strip raw)
     \<and> (\<exists>ds rest. quantity_match (strip raw) = Some (ds, rest) \<and> int_max_str_digits < length ds)"
proof (cases "quantity_match (strip raw)")
  case None
  then show ?thesis by (simp add: parse_card_line_def Let_def)
next
  case (Some m)
  obtain ds rest where m: "m = (ds, rest)" by (cases m)
  have ne: "strip raw \<noteq> []" using Some quantity_match_Nil by auto
  show ?thesis
  proof (cases "int_max_str_digits < length ds")
    case True
    then obtain e where "int_of_digits ds = Inl e" using int_of_digits_Inl_iff by blast
    then show ?thesis using Some m ne True by (simp add: parse_card_line_def Let_def)
  next
    case False
    then have "int_of_digits ds = Inr (digits_value ds)" by (simp add: int_of_digits_within)
    then show ?thesis using Some m ne False
      by (simp add: parse_card_line_def Let_def split: option.splits)
  qed
qed


lemma parse_card_line_skip:
  "strip raw = [] \<or> tags_exclude (strip raw) \<or> quantity_match (strip raw) = None
     \<Longrightarrow> parse_card_line raw = Inr ([], 0)"
  by (auto simp: parse_card_line_def Let_def)

lemma parse_card_line_Some:
  assumes "strip raw \<noteq> []" and "\<not> tags_exclude (strip raw)"
    and "quantity_match (strip raw) = Some (ds, rest)"
  shows "parse_card_line raw =
           (case int_of_digits ds of
              Inl e \<Rightarrow> Inl e
            | Inr quantity \<Rightarrow>
                (case card_name_match rest of
                   None \<Rightarrow> Inr ([], 0)
                 | Some name \<Rightarrow> Inr (normalize_card_name (strip name), quantity)))"
  using assms by (simp add: parse_card_line_def Let_def)

lemma parse_card_line_Inr_cases:
  assumes "parse_card_line raw = Inr (name, quantity)"
  shows "(name = [] \<and> quantity = 0)
         \<or> (\<exists>ds c r. quantity_match (strip raw) = Some (ds, c # r) \<and> c \<noteq> CHR ''(''
               \<and> \<not> isspace c \<and> (\<forall>d \<in> set ds. isdigit d) \<and> quantity = digits_value ds
               \<and> name = normalize_card_name (strip (takeWhile (\<lambda>x. x \<noteq> CHR ''('') (c # r))))"
proof (cases "strip raw = [] \<or> tags_exclude (strip raw) \<or> quantity_match (strip raw) = None")
  case True
  then have "parse_card_line raw = Inr ([], 0)" by (rule parse_card_line_skip)
  with assms show ?thesis by simp
next
  case False
  then obtain ds rest where q: "quantity_match (strip raw) = Some (ds, rest)" by auto
  from quantity_match_Some [OF q] have dig: "\<forall>d \<in> set ds. isdigit d"
    and sp: "rest = [] \<or> \<not> isspace (hd rest)" by simp_all
  from False q have p: "parse_card_line raw =
           (case int_of_digits ds of
              Inl e \<Rightarrow> Inl e
            | Inr quantity \<Rightarrow>
                (case card_name_match rest of
                   None \<Rightarrow> Inr ([], 0)
                 | Some name \<Rightarrow> Inr (normalize_card_name (strip name), quantity)))"
    by (intro parse_card_line_Some) simp_all
  show ?thesis
  proof (cases "int_max_str_digits < length ds")
    case True
    then have "\<exists>e. parse_card_line raw = Inl e" unfolding p by (simp add: int_of_digits_def)
    with assms show ?thesis by simp
  next
    case within: False
    then have v: "int_of_digits ds = Inr (digits_value ds)" by (simp add: int_of_digits_within)
    show ?thesis
    proof (cases rest)
      case Nil
      then have "parse_card_line raw = Inr ([], 0)"
        unfolding p v by (simp add: card_name_match_def)
      with assms show ?thesis by simp
    next
      case (Cons c r)
      show ?thesis
      proof (cases "c = CHR ''(''")
        case True
        then have "parse_card_line raw = Inr ([], 0)"
          unfolding p v Cons by (simp add: card_name_match_def)
        with assms show ?thesis by simp
      next
        case False
        then have "parse_card_line raw
                     = Inr (normalize_card_name (strip (takeWhile (\<lambda>x. x \<noteq> CHR ''('') (c # r))),
                            digits_value ds)"
          unfolding p v Cons by (simp add: card_name_match_def)
        with assms have "name = normalize_card_name (strip (takeWhile (\<lambda>x. x \<noteq> CHR ''('') (c # r)))"
          and "quantity = digits_value ds" by simp_all
        moreover have "\<not> isspace c" using sp Cons by simp
        moreover have "quantity_match (strip raw) = Some (ds, c # r)" using q Cons by simp
        ultimately have "\<exists>ds c r. quantity_match (strip raw) = Some (ds, c # r) \<and> c \<noteq> CHR ''(''
               \<and> \<not> isspace c \<and> (\<forall>d \<in> set ds. isdigit d) \<and> quantity = digits_value ds
               \<and> name = normalize_card_name (strip (takeWhile (\<lambda>x. x \<noteq> CHR ''('') (c # r)))"
          using False dig by (intro exI [of _ ds] exI [of _ c] exI [of _ r]) simp
        then show ?thesis by (rule disjI2)
      qed
    qed
  qed
qed

lemma parse_card_line_quantity_nonneg:
  assumes "parse_card_line raw = Inr (name, quantity)"
  shows "0 \<le> quantity"
proof -
  from parse_card_line_Inr_cases [OF assms]
  consider "quantity = 0" | ds where "\<forall>d \<in> set ds. isdigit d" "quantity = digits_value ds"
    by blast
  then show ?thesis
  proof cases
    case 1
    then show ?thesis by simp
  next
    case 2
    then show ?thesis using digits_value_nonneg [of ds] by simp
  qed
qed

text \<open>
  Claim C3 on the line \<open>"3 /Ice"\<close>. Every path of the parser that skips a line returns the
  empty name with the quantity zero: a line without a quantity token, a line whose name is
  missing before the parenthesis (\<open>"3 (M10) 5"\<close>), a tagged line. On \<open>"3 /Ice"\<close> the name
  before the slash is empty and the parser returns it with the quantity 3: an empty name with
  a quantity other than zero, which is neither a valid pair nor the skip signal. The file
  reader, which tests the name alone, skips the line.
\<close>

theorem parse_card_line_empty_name_quantity:
  "parse_card_line ''3 /Ice'' = Inr ([], 3)
   \<and> parse_card_line ''3 /Ice'' \<noteq> Inr ([], 0)
   \<and> parse_card_line ''3 (M10) 5'' = Inr ([], 0)
   \<and> parse_card_line ''Ice'' = Inr ([], 0)
   \<and> parse_card_line ''3 Ice [Sideboard]'' = Inr ([], 0)
   \<and> read_card_lines [''3 /Ice''] = ([], None)"
  by code_simp

subsection \<open>The file reader\<close>

lemma parse_raises_iff:
  "parse_raises raw \<longleftrightarrow>
     \<not> tags_exclude (strip raw)
     \<and> (\<exists>ds rest. quantity_match (strip raw) = Some (ds, rest) \<and> int_max_str_digits < length ds)"
  unfolding parse_raises_def by (rule parse_card_line_Inl_iff)

lemma parse_returns:
  "\<not> parse_raises line \<Longrightarrow> parse_card_line line = Inr (line_name line, line_quantity line)"
  by (cases "parse_card_line line") (simp_all add: parse_raises_def line_name_def line_quantity_def)

lemma map_of_dict_add:
  "map_of (dict_add d k q) = (map_of d)(k \<mapsto> (case map_of d k of None \<Rightarrow> 0 | Some v \<Rightarrow> v) + q)"
  by (simp add: dict_add_def update_conv')

lemma distinct_dict_add: "distinct (map fst d) \<Longrightarrow> distinct (map fst (dict_add d k q))"
  by (simp add: dict_add_def distinct_update)

lemma distinct_card_step:
  "distinct (map fst cards) \<Longrightarrow> distinct (map fst (card_step cards parsed))"
  by (cases parsed) (simp add: card_step_def distinct_dict_add)

lemma map_of_card_step:
  "map_of (card_step cards (name, quantity)) n =
     (if name = n \<and> n \<noteq> [] \<and> n \<notin> BASIC_LANDS
      then Some ((case map_of cards n of None \<Rightarrow> 0 | Some v \<Rightarrow> v) + quantity)
      else map_of cards n)"
  by (simp add: card_step_def map_of_dict_add)

lemma card_loop_Cons_returns:
  "\<not> parse_raises line \<Longrightarrow>
     card_loop cards (line # ls)
       = card_loop (card_step cards (line_name line, line_quantity line)) ls"
  by (simp add: parse_returns)

lemma card_loop_Cons_raises:
  "parse_card_line line = Inl e \<Longrightarrow> card_loop cards (line # ls) = (cards, Some e)"
  by simp

lemma distinct_card_loop:
  "distinct (map fst cards) \<Longrightarrow> distinct (map fst (fst (card_loop cards ls)))"
proof (induction ls arbitrary: cards)
  case Nil
  then show ?case by simp
next
  case (Cons line ls)
  show ?case
  proof (cases "parse_card_line line")
    case (Inl e)
    then show ?thesis using Cons.prems by simp
  next
    case (Inr parsed)
    then show ?thesis using Cons.IH [of "card_step cards parsed"] Cons.prems
      by (simp add: distinct_card_step)
  qed
qed

lemma card_loop_raises_iff:
  "snd (card_loop cards ls) \<noteq> None \<longleftrightarrow> (\<exists>l \<in> set ls. parse_raises l)"
proof (induction ls arbitrary: cards)
  case Nil
  then show ?case by simp
next
  case (Cons line ls)
  show ?case
  proof (cases "parse_card_line line")
    case (Inl e)
    then show ?thesis by (simp add: parse_raises_def)
  next
    case (Inr parsed)
    then show ?thesis using Cons.IH [of "card_step cards parsed"]
      by (simp add: parse_raises_def)
  qed
qed

lemma card_loop_keys:
  "dict_contains (fst (card_loop cards ls)) n \<Longrightarrow>
     dict_contains cards n \<or> (n \<noteq> [] \<and> n \<notin> BASIC_LANDS)"
proof (induction ls arbitrary: cards)
  case Nil
  then show ?case by simp
next
  case (Cons line ls)
  show ?case
  proof (cases "parse_card_line line")
    case (Inl e)
    then show ?thesis using Cons.prems by simp
  next
    case (Inr parsed)
    obtain name quantity where p: "parsed = (name, quantity)" by (cases parsed)
    from Inr Cons.prems have "dict_contains (fst (card_loop (card_step cards parsed) ls)) n"
      by simp
    then have "dict_contains (card_step cards parsed) n \<or> (n \<noteq> [] \<and> n \<notin> BASIC_LANDS)"
      by (rule Cons.IH)
    then show ?thesis
      unfolding dict_contains_map_of p map_of_card_step by (auto split: if_splits)
  qed
qed

lemma map_of_card_loop:
  assumes "\<forall>l \<in> set ls. \<not> parse_raises l"
  shows "map_of (fst (card_loop cards ls)) n =
     (if n \<noteq> [] \<and> n \<notin> BASIC_LANDS \<and> (\<exists>l \<in> set ls. line_name l = n)
      then Some ((case map_of cards n of None \<Rightarrow> 0 | Some v \<Rightarrow> v)
                 + sum_list (map line_quantity (filter (\<lambda>l. line_name l = n) ls)))
      else map_of cards n)"
  using assms
proof (induction ls arbitrary: cards)
  case Nil
  then show ?case by simp
next
  case (Cons line ls)
  then have r: "\<not> parse_raises line" and rs: "\<forall>l \<in> set ls. \<not> parse_raises l" by simp_all
  show ?case
    unfolding card_loop_Cons_returns [OF r]
      Cons.IH [OF rs, of "card_step cards (line_name line, line_quantity line)"]
      map_of_card_step
    by (auto split: option.splits)
qed

lemma map_of_read_card_lines:
  assumes "\<forall>l \<in> set ls. \<not> parse_raises l"
  shows "map_of (fst (read_card_lines ls)) n =
     (if n \<noteq> [] \<and> n \<notin> BASIC_LANDS \<and> (\<exists>l \<in> set ls. line_name l = n)
      then Some (sum_list (map line_quantity (filter (\<lambda>l. line_name l = n) ls)))
      else None)"
  unfolding read_card_lines_def map_of_card_loop [OF assms] by simp

lemma distinct_read_card_lines: "distinct (map fst (fst (read_card_lines ls)))"
  unfolding read_card_lines_def by (rule distinct_card_loop) simp

lemma read_card_lines_raises_iff:
  "snd (read_card_lines ls) \<noteq> None \<longleftrightarrow> (\<exists>l \<in> set ls. parse_raises l)"
  unfolding read_card_lines_def by (rule card_loop_raises_iff)

lemma read_card_file_Lines:
  assumes "fs path = Lines ls" and "\<forall>l \<in> set ls. \<not> parse_raises l"
  shows "read_card_file fs path = ([], Return (fst (read_card_lines ls)))"
proof -
  have "snd (read_card_lines ls) = None" using assms(2) read_card_lines_raises_iff by blast
  then show ?thesis using assms(1)
    by (cases "read_card_lines ls") (simp add: read_card_file_def)
qed

lemma read_card_file_Lines_raises:
  assumes "fs path = Lines ls" and "\<exists>l \<in> set ls. parse_raises l"
  shows "\<exists>e. read_card_file fs path
               = (print (''Error reading file '' @ quoted path @ '': '' @ e), Exit 1)"
proof -
  have "snd (read_card_lines ls) \<noteq> None" using assms(2) read_card_lines_raises_iff by blast
  then show ?thesis using assms(1)
    by (cases "read_card_lines ls") (auto simp: read_card_file_def)
qed


lemma strip_id:
  assumes "s \<noteq> []" and "\<not> isspace (hd s)" and "\<not> isspace (last s)"
  shows "strip s = s"
proof -
  have 1: "dropWhile isspace s = s" using assms(1,2) by (simp add: dropWhile_eq_self_iff)
  have "hd (rev s) = last s" using assms(1) by (simp add: hd_rev)
  then have 2: "dropWhile isspace (rev s) = rev s"
    using assms(3) by (simp add: dropWhile_eq_self_iff)
  show ?thesis by (simp add: strip_def 1 2)
qed

lemma long_line_raises:
  assumes "int_max_str_digits < n"
  shows "parse_raises (replicate n CHR ''1'' @ '' Opt'')"
proof -
  let ?ds = "replicate n CHR ''1''"
  let ?s = "?ds @ '' Opt''"
  have n: "0 < n" using assms by simp
  have dig: "\<forall>c \<in> set ?ds. isdigit c" by (simp add: isdigit_def)
  have "hd ?s = CHR ''1''" using n by (cases n) simp_all
  then have s: "strip ?s = ?s" by (intro strip_id) (simp_all add: isspace_def)
  have "CHR ''['' \<notin> set ?s" by auto
  then have "\<not> contains ?s ''[''" by (simp only: contains_char not_False_eq_True)
  then have t: "\<not> tags_exclude ?s" by (simp add: tags_exclude_def)
  have sp: "\<not> isdigit CHR '' ''" by (simp add: isdigit_def)
  have "takeWhile isdigit ?s = ?ds @ takeWhile isdigit '' Opt''"
    using dig by (intro takeWhile_append2) simp
  then have tw: "takeWhile isdigit ?s = ?ds" using sp by simp
  have "dropWhile isdigit ?s = dropWhile isdigit '' Opt''"
    using dig by (intro dropWhile_append2) simp
  then have dw: "dropWhile isdigit ?s = '' Opt''" using sp by simp
  have ne: "?ds \<noteq> []" using n by simp
  have q: "quantity_match ?s = Some (?ds, ''Opt'')"
    unfolding quantity_match_def tw dw using ne by (simp add: isspace_def)
  have "int_max_str_digits < length ?ds" using assms by simp
  with q t show ?thesis unfolding parse_raises_iff s by blast
qed

lemma long_quantity_line_raises: "parse_raises long_quantity_line"
  unfolding long_quantity_line_def by (rule long_line_raises) (simp add: int_max_str_digits_def)

text \<open>
  Claim C4. A card file that is read to its end gives one of two results. When no line
  raises, the reader returns one dictionary (distinct keys) in which a name has an entry
  exactly when it is not empty, is no basic land and is the name parsed from some line; the
  quantity of the entry is the sum of the quantities parsed from all the lines with that name.
  When some line raises, which a line does exactly when it is not excluded by its tags and its
  quantity has more than 4300 digits, the reader prints an error and exits with status 1, and
  there is no mapping. The two lines \<open>"1 Sol Ring (M10) 1"\<close> and \<open>"2x Sol Ring (ABC) 2"\<close> give
  \<open>"Sol Ring"\<close> the quantity 3.
\<close>

theorem read_card_file_sums:
  assumes "fs path = Lines ls"
  shows "((\<forall>l \<in> set ls. \<not> parse_raises l) \<longrightarrow>
            (\<exists>cards. read_card_file fs path = ([], Return cards) \<and> distinct (map fst cards)
               \<and> (\<forall>n. map_of cards n =
                     (if n \<noteq> [] \<and> n \<notin> BASIC_LANDS \<and> (\<exists>l \<in> set ls. line_name l = n)
                      then Some (sum_list (map line_quantity (filter (\<lambda>l. line_name l = n) ls)))
                      else None))))
         \<and> ((\<exists>l \<in> set ls. parse_raises l) \<longrightarrow>
              (\<exists>e. read_card_file fs path
                     = (print (''Error reading file '' @ quoted path @ '': '' @ e), Exit 1)))
         \<and> (\<forall>l. parse_raises l \<longleftrightarrow>
                \<not> tags_exclude (strip l)
                \<and> (\<exists>ds rest. quantity_match (strip l) = Some (ds, rest) \<and> 4300 < length ds))
         \<and> read_card_lines [''1 Sol Ring (M10) 1'', ''2x Sol Ring (ABC) 2'']
             = ([(''Sol Ring'', 3)], None)"
proof (intro conjI impI allI)
  assume a: "\<forall>l \<in> set ls. \<not> parse_raises l"
  have "read_card_file fs path = ([], Return (fst (read_card_lines ls)))"
    using assms a by (rule read_card_file_Lines)
  moreover have "distinct (map fst (fst (read_card_lines ls)))"
    by (rule distinct_read_card_lines)
  moreover have "\<forall>n. map_of (fst (read_card_lines ls)) n =
                     (if n \<noteq> [] \<and> n \<notin> BASIC_LANDS \<and> (\<exists>l \<in> set ls. line_name l = n)
                      then Some (sum_list (map line_quantity (filter (\<lambda>l. line_name l = n) ls)))
                      else None)"
    using map_of_read_card_lines [OF a] by simp
  ultimately show "\<exists>cards. read_card_file fs path = ([], Return cards) \<and> distinct (map fst cards)
               \<and> (\<forall>n. map_of cards n =
                     (if n \<noteq> [] \<and> n \<notin> BASIC_LANDS \<and> (\<exists>l \<in> set ls. line_name l = n)
                      then Some (sum_list (map line_quantity (filter (\<lambda>l. line_name l = n) ls)))
                      else None))"
    by (intro exI [of _ "fst (read_card_lines ls)"] conjI)
next
  assume "\<exists>l \<in> set ls. parse_raises l"
  with assms show "\<exists>e. read_card_file fs path
                     = (print (''Error reading file '' @ quoted path @ '': '' @ e), Exit 1)"
    by (rule read_card_file_Lines_raises)
next
  fix l
  show "parse_raises l \<longleftrightarrow>
          \<not> tags_exclude (strip l)
          \<and> (\<exists>ds rest. quantity_match (strip l) = Some (ds, rest) \<and> 4300 < length ds)"
    using parse_raises_iff [of l] by (simp add: int_max_str_digits_def)
next
  show "read_card_lines [''1 Sol Ring (M10) 1'', ''2x Sol Ring (ABC) 2'']
             = ([(''Sol Ring'', 3)], None)"
    by code_simp
qed

theorem read_card_file_sums_witness:
  "read_card_file (\<lambda>p. Lines [''1 Sol Ring (M10) 1'' @ [CHR 0x0A], ''2x Sol Ring (ABC) 2'' @ [CHR 0x0A]])
      ''deck.txt'' = ([], Return [(''Sol Ring'', 3)])
   \<and> snd (read_card_file long_files ''deck.txt'') = Exit 1"
proof -
  let ?l1 = "''1 Sol Ring (M10) 1'' @ [CHR 0x0A]"
  let ?l2 = "''2x Sol Ring (ABC) 2'' @ [CHR 0x0A]"
  let ?fs = "\<lambda>p::string. Lines [?l1, ?l2]"
  have f: "?fs ''deck.txt'' = Lines [?l1, ?l2]" by simp
  have p1: "parse_card_line ?l1 = Inr (''Sol Ring'', 1)" by code_simp
  have p2: "parse_card_line ?l2 = Inr (''Sol Ring'', 2)" by code_simp
  have r: "\<forall>l \<in> set [?l1, ?l2]. \<not> parse_raises l"
    using p1 p2 by (simp add: parse_raises_def)
  from read_card_file_sums [of ?fs "''deck.txt''" "[?l1, ?l2]", THEN conjunct1] f r
  obtain cards where c: "read_card_file ?fs ''deck.txt'' = ([], Return cards)"
    by blast
  have e: "read_card_file ?fs ''deck.txt'' = ([], Return [(''Sol Ring'', 3)])"
    by code_simp
  have g: "long_files ''deck.txt'' = Lines [''1 Sol Ring'', long_quantity_line]"
    by (simp add: long_files_def)
  have "\<exists>l \<in> set [''1 Sol Ring'', long_quantity_line]. parse_raises l"
    using long_quantity_line_raises by simp
  with read_card_file_sums [of long_files "''deck.txt''" "[''1 Sol Ring'', long_quantity_line]",
      THEN conjunct2, THEN conjunct1] g
  obtain msg where "read_card_file long_files ''deck.txt''
                     = (print (''Error reading file '' @ quoted ''deck.txt'' @ '': '' @ msg), Exit 1)"
    by blast
  then have x: "snd (read_card_file long_files ''deck.txt'') = Exit 1" by simp
  from c e x show ?thesis by simp
qed

subsection \<open>The working mappings\<close>

lemma remove_step_delete:
  "(if dict_contains d name then AList.delete name d else d) = AList.delete name d"
  by (simp add: dict_contains_def)

lemma remove_filtered_conv:
  "remove_filtered filter_cards cards = filter (\<lambda>(name, qty). name \<notin> set filter_cards) cards"
  unfolding remove_filtered_def remove_step_delete
proof (induction filter_cards arbitrary: cards)
  case Nil
  then show ?case by simp
next
  case (Cons k ks)
  have "filter (\<lambda>(name, qty). name \<notin> set ks) (AList.delete k cards)
          = filter (\<lambda>(name, qty). name \<notin> set (k # ks)) cards"
    by (induction cards) (auto simp: AList.delete_eq)
  then show ?case using Cons.IH [of "AList.delete k cards"] by simp
qed

lemma dict_contains_remove_filtered:
  "dict_contains (remove_filtered filter_cards cards) n
     \<longleftrightarrow> dict_contains cards n \<and> n \<notin> set filter_cards"
  unfolding remove_filtered_conv dict_contains_def by force

lemma distinct_remove_filtered:
  "distinct (map fst cards) \<Longrightarrow> distinct (map fst (remove_filtered filter_cards cards))"
  unfolding remove_filtered_conv by (rule distinct_filter_keys)

lemma dict_contains_read_card_lines:
  "dict_contains (fst (read_card_lines ls)) n \<Longrightarrow> n \<noteq> [] \<and> n \<notin> BASIC_LANDS"
  unfolding read_card_lines_def using card_loop_keys [of "[]" ls n]
  by (simp add: dict_contains_def)

lemma read_card_file_Return:
  "read_card_file fs path = (out, Return cards)
     \<longleftrightarrow> (\<exists>ls. fs path = Lines ls \<and> out = [] \<and> read_card_lines ls = (cards, None))"
proof (cases "fs path")
  case (Lines ls)
  then show ?thesis
    by (cases "read_card_lines ls") (auto simp: read_card_file_def split: option.splits)
next
  case (ReadFails ls e)
  then show ?thesis
    by (cases "read_card_lines ls") (auto simp: read_card_file_def split: option.splits)
qed (simp_all add: read_card_file_def)

lemma read_card_file_no_Raise: "snd (read_card_file fs path) \<noteq> Raise e"
proof (cases "fs path")
  case (Lines ls)
  then show ?thesis
    by (cases "read_card_lines ls") (auto simp: read_card_file_def split: option.splits)
next
  case (ReadFails ls e)
  then show ?thesis
    by (cases "read_card_lines ls") (auto simp: read_card_file_def split: option.splits)
qed (simp_all add: read_card_file_def)

lemma load_card_lists_Return:
  assumes "load_card_lists fs file1 file2 filter_file = (out, Return (cards1, cards2))"
  shows "\<exists>ls1 ls2. fs file1 = Lines ls1 \<and> fs file2 = Lines ls2
           \<and> (if given filter_file
               then out = fst (read_filter_file fs (the filter_file))
                    \<and> cards1 = remove_filtered (snd (read_filter_file fs (the filter_file)))
                                 (fst (read_card_lines ls1))
                    \<and> cards2 = remove_filtered (snd (read_filter_file fs (the filter_file)))
                                 (fst (read_card_lines ls2))
               else out = [] \<and> cards1 = fst (read_card_lines ls1) \<and> cards2 = fst (read_card_lines ls2))"
proof -
  obtain o1 r1 where r1: "read_card_file fs file1 = (o1, r1)" by (cases "read_card_file fs file1")
  obtain o2 r2 where r2: "read_card_file fs file2 = (o2, r2)" by (cases "read_card_file fs file2")
  from assms r1 obtain c1 where c1: "r1 = Return c1"
    by (cases r1) (auto simp: load_card_lists_def)
  from assms r1 r2 c1 obtain c2 where c2: "r2 = Return c2"
    by (cases r2) (auto simp: load_card_lists_def)
  from r1 c1 obtain ls1 where l1: "fs file1 = Lines ls1" "o1 = []" "read_card_lines ls1 = (c1, None)"
    using read_card_file_Return by blast
  from r2 c2 obtain ls2 where l2: "fs file2 = Lines ls2" "o2 = []" "read_card_lines ls2 = (c2, None)"
    using read_card_file_Return by blast
  from assms have
    "(if given filter_file
               then out = fst (read_filter_file fs (the filter_file))
                    \<and> cards1 = remove_filtered (snd (read_filter_file fs (the filter_file)))
                                 (fst (read_card_lines ls1))
                    \<and> cards2 = remove_filtered (snd (read_filter_file fs (the filter_file)))
                                 (fst (read_card_lines ls2))
               else out = [] \<and> cards1 = fst (read_card_lines ls1) \<and> cards2 = fst (read_card_lines ls2))"
    unfolding load_card_lists_def r1 r2 c1 c2 l1 l2
    by (auto split: prod.splits if_splits)
  with l1(1) l2(1) show ?thesis by blast
qed

text \<open>
  Claim C5. Whenever the two card files have been read (and the filter applied when one is
  given), neither working mapping has an entry for the empty name, which is what a skipped
  line parses to, nor for one of the five basic lands \<open>Forest\<close>, \<open>Island\<close>, \<open>Swamp\<close>,
  \<open>Plains\<close>, \<open>Mountain\<close>, nor, when a filter file is given, for a name of the exclusion set.
  The same holds of the file reader's mapping and of its filtered form on their own. A file
  with the one line \<open>"10 Forest"\<close> gives the empty mapping; the match is exact, so
  \<open>"10 forest"\<close> gives an entry.
\<close>

theorem card_mapping_invariant:
  assumes "load_card_lists fs file1 file2 filter_file = (out, Return (cards1, cards2))"
  shows "(\<forall>n. dict_contains cards1 n \<or> dict_contains cards2 n \<longrightarrow>
            n \<noteq> [] \<and> n \<notin> BASIC_LANDS
            \<and> (given filter_file \<longrightarrow> n \<notin> set (snd (read_filter_file fs (the filter_file)))))
         \<and> (\<forall>n. dict_contains (fst (read_card_lines ls)) n \<longrightarrow> n \<noteq> [] \<and> n \<notin> BASIC_LANDS)
         \<and> (\<forall>n. dict_contains (remove_filtered filter_cards (fst (read_card_lines ls))) n \<longrightarrow>
               n \<noteq> [] \<and> n \<notin> BASIC_LANDS \<and> n \<notin> set filter_cards)
         \<and> BASIC_LANDS = {''Forest'', ''Island'', ''Swamp'', ''Plains'', ''Mountain''}
         \<and> read_card_lines [''10 Forest''] = ([], None)
         \<and> read_card_lines [''10 forest''] = ([(''forest'', 10)], None)"
proof -
  from load_card_lists_Return [OF assms] obtain ls1 ls2 where
    c: "if given filter_file
        then out = fst (read_filter_file fs (the filter_file))
             \<and> cards1 = remove_filtered (snd (read_filter_file fs (the filter_file)))
                                 (fst (read_card_lines ls1))
             \<and> cards2 = remove_filtered (snd (read_filter_file fs (the filter_file)))
                                 (fst (read_card_lines ls2))
        else out = [] \<and> cards1 = fst (read_card_lines ls1) \<and> cards2 = fst (read_card_lines ls2)"
    by blast
  have 1: "\<forall>n. dict_contains cards1 n \<or> dict_contains cards2 n \<longrightarrow>
            n \<noteq> [] \<and> n \<notin> BASIC_LANDS
            \<and> (given filter_file \<longrightarrow> n \<notin> set (snd (read_filter_file fs (the filter_file))))"
  proof (cases "given filter_file")
    case True
    with c show ?thesis
      by (auto simp: dict_contains_remove_filtered dest: dict_contains_read_card_lines)
  next
    case False
    with c show ?thesis
      by (auto dest: dict_contains_read_card_lines)
  qed
  have 2: "\<forall>n. dict_contains (fst (read_card_lines ls)) n \<longrightarrow> n \<noteq> [] \<and> n \<notin> BASIC_LANDS"
    by (auto dest: dict_contains_read_card_lines)
  have 3: "\<forall>n. dict_contains (remove_filtered filter_cards (fst (read_card_lines ls))) n \<longrightarrow>
               n \<noteq> [] \<and> n \<notin> BASIC_LANDS \<and> n \<notin> set filter_cards"
    by (auto simp: dict_contains_remove_filtered dest: dict_contains_read_card_lines)
  have 4: "read_card_lines [''10 Forest''] = ([], None)" by code_simp
  have 5: "read_card_lines [''10 forest''] = ([(''forest'', 10)], None)" by code_simp
  from 1 2 3 4 5 show ?thesis by (simp add: BASIC_LANDS_def)
qed


theorem card_mapping_invariant_witness:
  "load_card_lists example_files ''a.txt'' ''b.txt'' (Some ''skip.txt'')
     = ([], Return ([(''Brainstorm'', 1)], []))
   \<and> snd (read_filter_file example_files ''skip.txt'') = [''Opt'', ''Sol Ring'']
   \<and> dict_contains [(''Brainstorm'', 1::int)] ''Brainstorm''
   \<and> ''Brainstorm'' \<noteq> [] \<and> ''Brainstorm'' \<notin> BASIC_LANDS
   \<and> given (Some ''skip.txt'')
   \<and> ''Brainstorm'' \<notin> set (snd (read_filter_file example_files (the (Some ''skip.txt''))))"
proof -
  have l: "load_card_lists example_files ''a.txt'' ''b.txt'' (Some ''skip.txt'')
     = ([], Return ([(''Brainstorm'', 1)], []))" by code_simp
  have f: "snd (read_filter_file example_files ''skip.txt'') = [''Opt'', ''Sol Ring'']"
    by code_simp
  have d: "dict_contains [(''Brainstorm'', 1::int)] ''Brainstorm''" by code_simp
  have g: "given (Some ''skip.txt'')" by code_simp
  note inv = card_mapping_invariant [OF l, THEN conjunct1, THEN spec, of "''Brainstorm''"]
  from inv d g
  have i: "''Brainstorm'' \<noteq> [] \<and> ''Brainstorm'' \<notin> BASIC_LANDS
     \<and> ''Brainstorm'' \<notin> set (snd (read_filter_file example_files (the (Some ''skip.txt''))))"
    by simp
  from l f d g i show ?thesis by simp
qed

subsection \<open>A line with the quantity zero\<close>

lemma parse_zero_quantity:
  assumes "quantity_match (strip raw) = Some (ds, c # r)" and "set ds \<subseteq> {CHR ''0''}"
    and "length ds \<le> 4300" and "\<not> tags_exclude (strip raw)"
    and "c \<noteq> CHR ''(''" and "c \<noteq> CHR ''/''"
  shows "parse_card_line raw = Inr (line_name raw, 0)"
    and "line_name raw \<noteq> []"
    and "line_name raw = normalize_card_name (strip (takeWhile (\<lambda>x. x \<noteq> CHR ''('') (c # r)))"
proof -
  let ?name = "normalize_card_name (strip (takeWhile (\<lambda>x. x \<noteq> CHR ''('') (c # r)))"
  have len: "length ds \<le> int_max_str_digits" using assms(3) by (simp add: int_max_str_digits_def)
  have p: "parse_card_line raw = Inr (?name, digits_value ds)"
    using assms(1,4) len assms(5) by (rule parse_card_line_after_token)
  have z: "digits_value ds = 0" using assms(2) by (rule digits_value_zeros)
  from quantity_match_Some [OF assms(1)] have sp: "\<not> isspace c" by simp
  show n: "line_name raw = ?name" by (simp add: line_name_def p)
  show "parse_card_line raw = Inr (line_name raw, 0)" by (simp add: n p z)
  show "line_name raw \<noteq> []" unfolding n using sp assms(5,6) by (rule name_after_token_nonempty)
qed

lemma read_zero_quantity:
  assumes "parse_card_line line = Inr (name, 0)" and "name \<noteq> []" and "name \<notin> BASIC_LANDS"
  shows "card_loop cards [line] = (card_step cards (name, 0), None)"
    and "map_of (card_step cards (name, 0))
           = (map_of cards)(name \<mapsto> (case map_of cards name of None \<Rightarrow> 0 | Some q \<Rightarrow> q))"
    and "read_card_lines [line] = ([(name, 0)], None)"
proof -
  show "card_loop cards [line] = (card_step cards (name, 0), None)" using assms(1) by simp
  show "map_of (card_step cards (name, 0))
           = (map_of cards)(name \<mapsto> (case map_of cards name of None \<Rightarrow> 0 | Some q \<Rightarrow> q))"
    using assms(2,3) by (simp add: card_step_def map_of_dict_add)
  have "card_step [] (name, 0) = [(name, 0)]"
    using assms(2,3) by (simp add: card_step_def dict_add_def)
  then show "read_card_lines [line] = ([(name, 0)], None)"
    using assms(1) by (simp add: read_card_lines_def)
qed

lemma compare_zero_quantity:
  assumes "map_of A name = Some 0" and "map_of B name = None"
  shows "map_of (fst (compare_mappings A B)) name = Some 0"
    and "map_of (fst (snd (compare_mappings B A))) name = Some 0"
  using assms
  by (simp_all add: compare_mappings_def map_of_filter_keys dict_contains_map_of)

text \<open>
  Claim C10. A line with a zero quantity is not skipped. For every line whose quantity token
  has only zeros as its digits (at most 4300 of them), that is not excluded by its tags, and
  whose text after the token begins with neither \<open>(\<close> nor \<open>/\<close>, the parser returns the
  quantity 0 with a name that is not empty: the name it finds for any other quantity. For
  every line that the parser returns with a non-empty name, other than a basic land, and the
  quantity 0, the file reader's loop gives the name an entry: with the quantity 0 when it had
  none, with its quantity unchanged when it had one, and no other entry changes. A name with
  the quantity 0 in one mapping and absent from the other is among the names unique to its
  file, with the quantity 0, on either side. \<open>"0 Sol Ring"\<close> is such a line.
\<close>

theorem zero_quantity_line:
  "(quantity_match (strip raw) = Some (ds, c # r) \<and> set ds \<subseteq> {CHR ''0''} \<and> length ds \<le> 4300
      \<and> \<not> tags_exclude (strip raw) \<and> c \<noteq> CHR ''('' \<and> c \<noteq> CHR ''/''
    \<longrightarrow> parse_card_line raw = Inr (line_name raw, 0) \<and> line_name raw \<noteq> []
        \<and> line_name raw = normalize_card_name (strip (takeWhile (\<lambda>x. x \<noteq> CHR ''('') (c # r))))
   \<and> (parse_card_line line = Inr (name, 0) \<and> name \<noteq> [] \<and> name \<notin> BASIC_LANDS
    \<longrightarrow> card_loop cards [line] = (card_step cards (name, 0), None)
        \<and> map_of (card_step cards (name, 0))
            = (map_of cards)(name \<mapsto> (case map_of cards name of None \<Rightarrow> 0 | Some q \<Rightarrow> q))
        \<and> read_card_lines [line] = ([(name, 0)], None))
   \<and> (map_of A name = Some 0 \<and> map_of B name = None
    \<longrightarrow> map_of (fst (compare_mappings A B)) name = Some 0
        \<and> map_of (fst (snd (compare_mappings B A))) name = Some 0)
   \<and> parse_card_line ''0 Sol Ring'' = Inr (''Sol Ring'', 0)
   \<and> read_card_lines [''2 Sol Ring'', ''0 Sol Ring''] = ([(''Sol Ring'', 2)], None)
   \<and> compare_mappings (fst (read_card_lines [''0 Sol Ring''])) (fst (read_card_lines [''1 Brainstorm'']))
       = ([(''Sol Ring'', 0)], [(''Brainstorm'', 1)], [])
   \<and> compare_mappings (fst (read_card_lines [''1 Brainstorm''])) (fst (read_card_lines [''0 Sol Ring'']))
       = ([(''Brainstorm'', 1)], [(''Sol Ring'', 0)], [])"
proof (intro conjI impI)
  assume a: "quantity_match (strip raw) = Some (ds, c # r) \<and> set ds \<subseteq> {CHR ''0''}
      \<and> length ds \<le> 4300 \<and> \<not> tags_exclude (strip raw) \<and> c \<noteq> CHR ''('' \<and> c \<noteq> CHR ''/''"
  then have 1: "quantity_match (strip raw) = Some (ds, c # r)" and 2: "set ds \<subseteq> {CHR ''0''}"
    and 3: "length ds \<le> 4300" and 4: "\<not> tags_exclude (strip raw)"
    and 5: "c \<noteq> CHR ''(''" and 6: "c \<noteq> CHR ''/''" by simp_all
  show "parse_card_line raw = Inr (line_name raw, 0)"
    by (rule parse_zero_quantity(1) [OF 1 2 3 4 5 6])
  show "line_name raw \<noteq> []"
    by (rule parse_zero_quantity(2) [OF 1 2 3 4 5 6])
  show "line_name raw = normalize_card_name (strip (takeWhile (\<lambda>x. x \<noteq> CHR ''('') (c # r)))"
    by (rule parse_zero_quantity(3) [OF 1 2 3 4 5 6])
next
  assume a: "parse_card_line line = Inr (name, 0) \<and> name \<noteq> [] \<and> name \<notin> BASIC_LANDS"
  then have 1: "parse_card_line line = Inr (name, 0)" and 2: "name \<noteq> []"
    and 3: "name \<notin> BASIC_LANDS" by simp_all
  show "card_loop cards [line] = (card_step cards (name, 0), None)"
    by (rule read_zero_quantity(1) [OF 1 2 3])
  show "map_of (card_step cards (name, 0))
            = (map_of cards)(name \<mapsto> (case map_of cards name of None \<Rightarrow> 0 | Some q \<Rightarrow> q))"
    by (rule read_zero_quantity(2) [OF 1 2 3])
  show "read_card_lines [line] = ([(name, 0)], None)"
    by (rule read_zero_quantity(3) [OF 1 2 3])
next
  assume a: "map_of A name = Some 0 \<and> map_of B name = None"
  then have 1: "map_of A name = Some 0" and 2: "map_of B name = None" by simp_all
  show "map_of (fst (compare_mappings A B)) name = Some 0"
    by (rule compare_zero_quantity(1) [OF 1 2])
  show "map_of (fst (snd (compare_mappings B A))) name = Some 0"
    by (rule compare_zero_quantity(2) [OF 1 2])
next
  show "parse_card_line ''0 Sol Ring'' = Inr (''Sol Ring'', 0)" by code_simp
next
  show "read_card_lines [''2 Sol Ring'', ''0 Sol Ring''] = ([(''Sol Ring'', 2)], None)"
    by code_simp
next
  show "compare_mappings (fst (read_card_lines [''0 Sol Ring''])) (fst (read_card_lines [''1 Brainstorm'']))
       = ([(''Sol Ring'', 0)], [(''Brainstorm'', 1)], [])" by code_simp
next
  show "compare_mappings (fst (read_card_lines [''1 Brainstorm''])) (fst (read_card_lines [''0 Sol Ring'']))
       = ([(''Brainstorm'', 1)], [(''Sol Ring'', 0)], [])" by code_simp
qed

theorem zero_quantity_line_witness:
  "quantity_match (strip ''00x Opt (M21) 59'') = Some (''00'', ''Opt (M21) 59'')
   \<and> parse_card_line ''00x Opt (M21) 59'' = Inr (line_name ''00x Opt (M21) 59'', 0)
   \<and> line_name ''00x Opt (M21) 59'' = ''Opt''
   \<and> read_card_lines [''00x Opt (M21) 59''] = ([(''Opt'', 0)], None)
   \<and> map_of (fst (compare_mappings [(''Opt'', 0)] [(''Sol Ring'', 2)])) ''Opt'' = Some 0
   \<and> map_of (fst (snd (compare_mappings [(''Sol Ring'', 2)] [(''Opt'', 0)]))) ''Opt'' = Some 0"
proof -
  let ?raw = "''00x Opt (M21) 59''"
  have q: "quantity_match (strip ?raw) = Some (''00'', CHR ''O'' # ''pt (M21) 59'')" by code_simp
  have z: "set ''00'' \<subseteq> {CHR ''0''}" by simp
  have l: "length ''00'' \<le> 4300" by simp
  have t: "\<not> tags_exclude (strip ?raw)" by code_simp
  have c: "CHR ''O'' \<noteq> CHR ''(''" "CHR ''O'' \<noteq> CHR ''/''" by simp_all
  note inst = zero_quantity_line [where raw = ?raw and ds = "''00''" and c = "CHR ''O''"
      and r = "''pt (M21) 59''" and line = ?raw and name = "''Opt''"
      and A = "[(''Opt'', 0)]" and B = "[(''Sol Ring'', 2)]"]
  have hyp: "quantity_match (strip ?raw) = Some (''00'', CHR ''O'' # ''pt (M21) 59'')
      \<and> set ''00'' \<subseteq> {CHR ''0''} \<and> length ''00'' \<le> 4300
      \<and> \<not> tags_exclude (strip ?raw) \<and> CHR ''O'' \<noteq> CHR ''('' \<and> CHR ''O'' \<noteq> CHR ''/''"
    by (intro conjI q z l t c)
  note parsed = inst [THEN conjunct1, THEN mp, OF hyp]
  have p: "parse_card_line ?raw = Inr (line_name ?raw, 0)" by (rule parsed [THEN conjunct1])
  have n: "line_name ?raw
              = normalize_card_name (strip (takeWhile (\<lambda>x. x \<noteq> CHR ''('') (CHR ''O'' # ''pt (M21) 59'')))"
    by (rule parsed [THEN conjunct2, THEN conjunct2])
  have "normalize_card_name (strip (takeWhile (\<lambda>x. x \<noteq> CHR ''('') (CHR ''O'' # ''pt (M21) 59'')))
          = ''Opt''" by code_simp
  with n have n': "line_name ?raw = ''Opt''" by simp
  have b: "''Opt'' \<notin> BASIC_LANDS" by (simp add: BASIC_LANDS_def)
  from p n' have p': "parse_card_line ?raw = Inr (''Opt'', 0)" by simp
  have hyp2: "parse_card_line ?raw = Inr (''Opt'', 0) \<and> ''Opt'' \<noteq> [] \<and> ''Opt'' \<notin> BASIC_LANDS"
    using p' b by simp
  have rd: "read_card_lines [?raw] = ([(''Opt'', 0)], None)"
    by (rule inst [THEN conjunct2, THEN conjunct1, THEN mp, OF hyp2, THEN conjunct2, THEN conjunct2])
  have hyp3: "map_of [(''Opt'', 0::int)] ''Opt'' = Some 0 \<and> map_of [(''Sol Ring'', 2::int)] ''Opt'' = None"
    by simp
  note compared = inst [THEN conjunct2, THEN conjunct2, THEN conjunct1, THEN mp, OF hyp3]
  have u: "map_of (fst (compare_mappings [(''Opt'', 0)] [(''Sol Ring'', 2)])) ''Opt'' = Some 0"
    by (rule compared [THEN conjunct1])
  have v: "map_of (fst (snd (compare_mappings [(''Sol Ring'', 2)] [(''Opt'', 0)]))) ''Opt'' = Some 0"
    by (rule compared [THEN conjunct2])
  from q have q': "quantity_match (strip ?raw) = Some (''00'', ''Opt (M21) 59'')" by simp
  show ?thesis by (intro conjI q' p n' rd u v)
qed

subsection \<open>A card file that cannot be opened\<close>

lemma parse_Inr_not_raises: "parse_card_line line = Inr parsed \<Longrightarrow> \<not> parse_raises line"
  by (simp add: parse_raises_def)

lemma read_card_file_NotFound:
  "fs path = NotFound \<Longrightarrow>
     read_card_file fs path = (print (''Error: File '' @ quoted path @ '' not found.''), Exit 1)"
  by (simp add: read_card_file_def)

lemma read_card_file_OpenFails:
  "fs path = OpenFails e \<Longrightarrow>
     read_card_file fs path = (print (''Error reading file '' @ quoted path @ '': '' @ e), Exit 1)"
  by (simp add: read_card_file_def)

lemma read_card_file_ReadFails:
  "fs path = ReadFails ls e \<Longrightarrow>
     read_card_file fs path
       = (print (''Error reading file '' @ quoted path @ '': ''
                   @ (case snd (read_card_lines ls) of None \<Rightarrow> e | Some e' \<Rightarrow> e')), Exit 1)"
  by (cases "read_card_lines ls") (auto simp: read_card_file_def split: option.splits)

lemma read_card_file_exits:
  assumes "fs path = NotFound \<or> fs path = OpenFails e \<or> fs path = ReadFails ls e"
  shows "read_card_file fs path = (fst (read_card_file fs path), Exit 1)"
  using assms read_card_file_NotFound [of fs path] read_card_file_OpenFails [of fs path e]
    read_card_file_ReadFails [of fs path ls e]
  by auto

lemma main_first_file_exits:
  assumes "read_card_file fs file1 = (msg, Exit n)"
  shows "main fs file1 file2 filter_file = (header file1 file2 filter_file @ msg, Exit n)"
  using assms by (simp add: main_def compare_card_lists_def load_card_lists_def)

lemma main_second_file_exits:
  assumes "read_card_file fs file1 = ([], Return cards1)"
    and "read_card_file fs file2 = (msg, Exit n)"
  shows "main fs file1 file2 filter_file = (header file1 file2 filter_file @ msg, Exit n)"
  using assms by (simp add: main_def compare_card_lists_def load_card_lists_def)

text \<open>
  Claim C8. When a card file cannot be opened, the file reader prints the error message and
  leaves through \<open>sys.exit(1)\<close>: the message names the path, and says \<open>not found\<close> when the
  file does not exist and gives the text of the exception otherwise. So when the first file
  cannot be opened, or the first is read to its end and the second cannot be opened, the
  process ends with status 1, and its whole output is the opening line of \<open>main\<close> that names
  the files, followed by the error message: none of the three results is printed. The same
  happens when a card file opens and reading it fails later, and when a line of the first file
  raises.
\<close>

theorem required_file_cannot_be_opened:
  "(fs path = NotFound \<longrightarrow>
      read_card_file fs path = (print (''Error: File '' @ quoted path @ '' not found.''), Exit 1))
   \<and> (fs path = OpenFails e \<longrightarrow>
      read_card_file fs path = (print (''Error reading file '' @ quoted path @ '': '' @ e), Exit 1))
   \<and> (fs path = ReadFails read e \<longrightarrow>
      read_card_file fs path
        = (print (''Error reading file '' @ quoted path @ '': ''
                    @ (case snd (read_card_lines read) of None \<Rightarrow> e | Some e' \<Rightarrow> e')), Exit 1))
   \<and> ((fs file1 = NotFound \<or> fs file1 = OpenFails e \<or> fs file1 = ReadFails read e) \<longrightarrow>
      main fs file1 file2 filter_file
        = (header file1 file2 filter_file @ fst (read_card_file fs file1), Exit 1))
   \<and> ((\<exists>ls. fs file1 = Lines ls \<and> (\<forall>l \<in> set ls. \<not> parse_raises l))
        \<and> (fs file2 = NotFound \<or> fs file2 = OpenFails e \<or> fs file2 = ReadFails read e) \<longrightarrow>
      main fs file1 file2 filter_file
        = (header file1 file2 filter_file @ fst (read_card_file fs file2), Exit 1))
   \<and> ((\<exists>ls. fs file1 = Lines ls \<and> (\<exists>l \<in> set ls. parse_raises l)) \<longrightarrow>
      main fs file1 file2 filter_file
        = (header file1 file2 filter_file @ fst (read_card_file fs file1), Exit 1))
   \<and> exit_status (Exit 1) = 1"
proof (intro conjI impI)
  assume "fs path = NotFound"
  then show "read_card_file fs path = (print (''Error: File '' @ quoted path @ '' not found.''), Exit 1)"
    by (rule read_card_file_NotFound)
next
  assume "fs path = OpenFails e"
  then show "read_card_file fs path = (print (''Error reading file '' @ quoted path @ '': '' @ e), Exit 1)"
    by (rule read_card_file_OpenFails)
next
  assume "fs path = ReadFails read e"
  then show "read_card_file fs path
        = (print (''Error reading file '' @ quoted path @ '': ''
                    @ (case snd (read_card_lines read) of None \<Rightarrow> e | Some e' \<Rightarrow> e')), Exit 1)"
    by (rule read_card_file_ReadFails)
next
  assume "fs file1 = NotFound \<or> fs file1 = OpenFails e \<or> fs file1 = ReadFails read e"
  then have "read_card_file fs file1 = (fst (read_card_file fs file1), Exit 1)"
    by (rule read_card_file_exits)
  then show "main fs file1 file2 filter_file
        = (header file1 file2 filter_file @ fst (read_card_file fs file1), Exit 1)"
    by (rule main_first_file_exits)
next
  assume a: "(\<exists>ls. fs file1 = Lines ls \<and> (\<forall>l \<in> set ls. \<not> parse_raises l))
        \<and> (fs file2 = NotFound \<or> fs file2 = OpenFails e \<or> fs file2 = ReadFails read e)"
  then obtain ls where l: "fs file1 = Lines ls" "\<forall>l \<in> set ls. \<not> parse_raises l" by blast
  then have 1: "read_card_file fs file1 = ([], Return (fst (read_card_lines ls)))"
    by (rule read_card_file_Lines)
  from a have "fs file2 = NotFound \<or> fs file2 = OpenFails e \<or> fs file2 = ReadFails read e"
    by (rule conjunct2)
  then have "read_card_file fs file2 = (fst (read_card_file fs file2), Exit 1)"
    by (rule read_card_file_exits)
  with 1 show "main fs file1 file2 filter_file
        = (header file1 file2 filter_file @ fst (read_card_file fs file2), Exit 1)"
    by (rule main_second_file_exits)
next
  assume "\<exists>ls. fs file1 = Lines ls \<and> (\<exists>l \<in> set ls. parse_raises l)"
  then obtain ls where l: "fs file1 = Lines ls" "\<exists>l \<in> set ls. parse_raises l" by blast
  then obtain msg where "read_card_file fs file1
               = (print (''Error reading file '' @ quoted file1 @ '': '' @ msg), Exit 1)"
    using read_card_file_Lines_raises by blast
  then have "read_card_file fs file1 = (fst (read_card_file fs file1), Exit 1)" by simp
  then show "main fs file1 file2 filter_file
        = (header file1 file2 filter_file @ fst (read_card_file fs file1), Exit 1)"
    by (rule main_first_file_exits)
next
  show "exit_status (Exit 1) = 1" by (simp add: exit_status_def)
qed

theorem required_file_cannot_be_opened_witness:
  "example_files ''missing.txt'' = NotFound
   \<and> read_card_file example_files ''missing.txt''
       = (print (''Error: File '' @ quoted ''missing.txt'' @ '' not found.''), Exit 1)
   \<and> main example_files ''missing.txt'' ''b.txt'' None
       = (header ''missing.txt'' ''b.txt'' None
            @ fst (read_card_file example_files ''missing.txt''), Exit 1)
   \<and> main example_files ''a.txt'' ''missing.txt'' None
       = (header ''a.txt'' ''missing.txt'' None
            @ fst (read_card_file example_files ''missing.txt''), Exit 1)
   \<and> snd (main long_files ''a.txt'' ''b.txt'' None) = Exit 1"
proof -
  have m: "example_files ''missing.txt'' = NotFound" by code_simp
  have a: "example_files ''a.txt''
             = Lines [''1 Sol Ring'', ''1 Brainstorm'', ''10 Forest'', ''3 /Ice'']" by code_simp
  have "parse_card_line ''1 Sol Ring'' = Inr (''Sol Ring'', 1)"
    and "parse_card_line ''1 Brainstorm'' = Inr (''Brainstorm'', 1)"
    and "parse_card_line ''10 Forest'' = Inr (''Forest'', 10)"
    and "parse_card_line ''3 /Ice'' = Inr ([], 3)" by code_simp+
  then have r: "\<forall>l \<in> set [''1 Sol Ring'', ''1 Brainstorm'', ''10 Forest'', ''3 /Ice'']. \<not> parse_raises l"
    by (simp add: parse_raises_def)
  have 1: "read_card_file example_files ''missing.txt''
       = (print (''Error: File '' @ quoted ''missing.txt'' @ '' not found.''), Exit 1)"
    by (rule required_file_cannot_be_opened [where fs = example_files and path = "''missing.txt''",
          THEN conjunct1, THEN mp, OF m])
  have h2: "example_files ''missing.txt'' = NotFound \<or> example_files ''missing.txt'' = OpenFails []
            \<or> example_files ''missing.txt'' = ReadFails [] []" using m by simp
  have 2: "main example_files ''missing.txt'' ''b.txt'' None
       = (header ''missing.txt'' ''b.txt'' None
            @ fst (read_card_file example_files ''missing.txt''), Exit 1)"
    by (rule required_file_cannot_be_opened [where fs = example_files and ?file1.0 = "''missing.txt''"
          and ?file2.0 = "''b.txt''" and filter_file = None and e = "[]" and read = "[]",
          THEN conjunct2, THEN conjunct2, THEN conjunct2, THEN conjunct1, THEN mp, OF h2])
  have h3: "(\<exists>ls. example_files ''a.txt'' = Lines ls \<and> (\<forall>l \<in> set ls. \<not> parse_raises l))
        \<and> (example_files ''missing.txt'' = NotFound \<or> example_files ''missing.txt'' = OpenFails []
            \<or> example_files ''missing.txt'' = ReadFails [] [])"
    using a r h2 by blast
  have 3: "main example_files ''a.txt'' ''missing.txt'' None
       = (header ''a.txt'' ''missing.txt'' None
            @ fst (read_card_file example_files ''missing.txt''), Exit 1)"
    by (rule required_file_cannot_be_opened [where fs = example_files and ?file1.0 = "''a.txt''"
          and ?file2.0 = "''missing.txt''" and filter_file = None and e = "[]" and read = "[]",
          THEN conjunct2, THEN conjunct2, THEN conjunct2, THEN conjunct2, THEN conjunct1,
          THEN mp, OF h3])
  have h4: "\<exists>ls. long_files ''a.txt'' = Lines ls \<and> (\<exists>l \<in> set ls. parse_raises l)"
    using long_quantity_line_raises by (simp add: long_files_def)
  have "main long_files ''a.txt'' ''b.txt'' None
       = (header ''a.txt'' ''b.txt'' None @ fst (read_card_file long_files ''a.txt''), Exit 1)"
    by (rule required_file_cannot_be_opened [where fs = long_files and ?file1.0 = "''a.txt''"
          and ?file2.0 = "''b.txt''" and filter_file = None,
          THEN conjunct2, THEN conjunct2, THEN conjunct2, THEN conjunct2, THEN conjunct2,
          THEN conjunct1, THEN mp, OF h4])
  then have 4: "snd (main long_files ''a.txt'' ''b.txt'' None) = Exit 1" by simp
  show ?thesis by (intro conjI m 1 2 3 4)
qed

subsection \<open>A filter file that cannot be opened\<close>

lemma read_filter_file_NotFound:
  "fs path = NotFound \<Longrightarrow>
     read_filter_file fs path
       = (print (''Warning: Filter file '' @ quoted path @ '' not found. No cards will be filtered.''),
          [])"
  by (simp add: read_filter_file_def)

lemma read_filter_file_OpenFails:
  "fs path = OpenFails e \<Longrightarrow>
     read_filter_file fs path
       = (print (''Warning: Error reading filter file '' @ quoted path @ '': '' @ e
                   @ ''. No cards will be filtered.''), [])"
  by (simp add: read_filter_file_def)

lemma read_filter_file_ReadFails:
  "fs path = ReadFails ls e \<Longrightarrow>
     read_filter_file fs path
       = (print (''Warning: Error reading filter file '' @ quoted path @ '': ''
                   @ (case snd (read_filter_lines ls) of None \<Rightarrow> e | Some e' \<Rightarrow> e')
                   @ ''. No cards will be filtered.''), fst (read_filter_lines ls))"
  by (cases "read_filter_lines ls") (auto simp: read_filter_file_def split: option.splits)

lemma remove_filtered_Nil: "remove_filtered [] cards = cards"
  by (simp add: remove_filtered_def)

lemma load_card_lists_no_filter:
  assumes "read_card_file fs file1 = ([], Return cards1)"
    and "read_card_file fs file2 = ([], Return cards2)" and "\<not> given filter_file"
  shows "load_card_lists fs file1 file2 filter_file = ([], Return (cards1, cards2))"
  using assms by (simp add: load_card_lists_def)

lemma load_card_lists_empty_filter:
  assumes "read_card_file fs file1 = ([], Return cards1)"
    and "read_card_file fs file2 = ([], Return cards2)" and "given filter_file"
    and "read_filter_file fs (the filter_file) = (warning, [])"
  shows "load_card_lists fs file1 file2 filter_file = (warning, Return (cards1, cards2))"
  using assms by (simp add: load_card_lists_def remove_filtered_Nil)

lemma main_Return:
  assumes "load_card_lists fs file1 file2 filter_file = (out, Return (cards1, cards2))"
  shows "main fs file1 file2 filter_file
           = (header file1 file2 filter_file @ out
                @ fst (report file1 file2 (compare_mappings cards1 cards2)),
              snd (report file1 file2 (compare_mappings cards1 cards2)))"
    and "compare_card_lists fs file1 file2 filter_file
           = (out, Return (compare_mappings cards1 cards2))"
  using assms by (simp_all add: main_def compare_card_lists_def split: prod.splits)

text \<open>
  When the filter file cannot be opened (it does not exist, or \<open>open\<close> raises another
  exception), the filter reader prints a warning and returns the empty set. With two card
  files that are read to their ends without a line that raises, \<open>compare_card_lists\<close> then
  returns the very results it returns without a filter file, and \<open>main\<close> prints the opening
  line, the warning, and the report of those results, and ends as it ends without a filter
  file.
\<close>

theorem filter_file_cannot_be_opened:
  assumes "fs filter_path = NotFound \<or> fs filter_path = OpenFails e"
    and "filter_path \<noteq> []"
    and "fs file1 = Lines ls1" and "\<forall>l \<in> set ls1. \<not> parse_raises l"
    and "fs file2 = Lines ls2" and "\<forall>l \<in> set ls2. \<not> parse_raises l"
  shows "\<exists>warning results.
           read_filter_file fs filter_path = (warning, [])
           \<and> warning =
               (if fs filter_path = NotFound
                then print (''Warning: Filter file '' @ quoted filter_path
                              @ '' not found. No cards will be filtered.'')
                else print (''Warning: Error reading filter file '' @ quoted filter_path @ '': '' @ e
                              @ ''. No cards will be filtered.''))
           \<and> compare_card_lists fs file1 file2 (Some filter_path) = (warning, Return results)
           \<and> compare_card_lists fs file1 file2 None = ([], Return results)
           \<and> main fs file1 file2 (Some filter_path)
               = (header file1 file2 (Some filter_path) @ warning
                    @ fst (report file1 file2 results), snd (report file1 file2 results))
           \<and> main fs file1 file2 None
               = (header file1 file2 None @ fst (report file1 file2 results),
                  snd (report file1 file2 results))"
proof -
  define warning where "warning = fst (read_filter_file fs filter_path)"
  define results where
    "results = compare_mappings (fst (read_card_lines ls1)) (fst (read_card_lines ls2))"
  have r: "read_filter_file fs filter_path = (warning, [])"
    using assms(1) unfolding warning_def by (auto simp: read_filter_file_def)
  have w: "warning =
               (if fs filter_path = NotFound
                then print (''Warning: Filter file '' @ quoted filter_path
                              @ '' not found. No cards will be filtered.'')
                else print (''Warning: Error reading filter file '' @ quoted filter_path @ '': '' @ e
                              @ ''. No cards will be filtered.''))"
    using assms(1) unfolding warning_def by (auto simp: read_filter_file_def)
  have g: "given (Some filter_path)" using assms(2) by (simp add: given_def)
  have n: "\<not> given None" by (simp add: given_def)
  have f1: "read_card_file fs file1 = ([], Return (fst (read_card_lines ls1)))"
    using assms(3,4) by (rule read_card_file_Lines)
  have f2: "read_card_file fs file2 = ([], Return (fst (read_card_lines ls2)))"
    using assms(5,6) by (rule read_card_file_Lines)
  have l1: "load_card_lists fs file1 file2 (Some filter_path)
              = (warning, Return (fst (read_card_lines ls1), fst (read_card_lines ls2)))"
    using r by (intro load_card_lists_empty_filter f1 f2 g) simp
  have l2: "load_card_lists fs file1 file2 None
              = ([], Return (fst (read_card_lines ls1), fst (read_card_lines ls2)))"
    by (intro load_card_lists_no_filter f1 f2 n)
  have c1: "compare_card_lists fs file1 file2 (Some filter_path) = (warning, Return results)"
    unfolding results_def by (rule main_Return(2) [OF l1])
  have c2: "compare_card_lists fs file1 file2 None = ([], Return results)"
    unfolding results_def by (rule main_Return(2) [OF l2])
  have m1: "main fs file1 file2 (Some filter_path)
               = (header file1 file2 (Some filter_path) @ warning
                    @ fst (report file1 file2 results), snd (report file1 file2 results))"
    unfolding results_def by (rule main_Return(1) [OF l1])
  have m2: "main fs file1 file2 None
               = (header file1 file2 None @ fst (report file1 file2 results),
                  snd (report file1 file2 results))"
    unfolding results_def using main_Return(1) [OF l2] by simp
  from r w c1 c2 m1 m2 show ?thesis by (intro exI conjI)
qed

subsection \<open>A filter file whose reading fails\<close>

text \<open>
  Claim C9 on a filter file that opens and cannot be read to its end. The filter file
  \<open>broken.txt\<close> yields the line \<open>"1 Sol Ring"\<close> and then raises. The filter reader prints its
  warning, which ends with \<open>No cards will be filtered.\<close>, and returns the set of the names read
  so far, \<open>{"Sol Ring"}\<close>, not the empty set. The run ends with status 0, and its results are
  not those of the run without a filter file: without one \<open>"Sol Ring"\<close> differs in quantity
  between \<open>a.txt\<close> and \<open>b.txt\<close>; with \<open>broken.txt\<close> it is filtered from both.
\<close>

theorem filter_file_fails_while_read:
  "example_files ''broken.txt'' = ReadFails [''1 Sol Ring''] ''invalid start byte''
   \<and> read_filter_file example_files ''broken.txt''
       = (print (''Warning: Error reading filter file '' @ quoted ''broken.txt''
                  @ '': invalid start byte. No cards will be filtered.''), [''Sol Ring''])
   \<and> snd (compare_card_lists example_files ''a.txt'' ''b.txt'' None)
       = Return ([(''Brainstorm'', 1)], [(''Opt'', 1)], [(''Sol Ring'', (1, 2))])
   \<and> snd (compare_card_lists example_files ''a.txt'' ''b.txt'' (Some ''broken.txt''))
       = Return ([(''Brainstorm'', 1)], [(''Opt'', 1)], [])
   \<and> exit_status (snd (main example_files ''a.txt'' ''b.txt'' (Some ''broken.txt''))) = 0"
proof -
  have 1: "example_files ''broken.txt'' = ReadFails [''1 Sol Ring''] ''invalid start byte''"
    by code_simp
  have 2: "read_filter_file example_files ''broken.txt''
       = (print (''Warning: Error reading filter file '' @ quoted ''broken.txt''
                  @ '': invalid start byte. No cards will be filtered.''), [''Sol Ring''])"
    by code_simp
  have 3: "snd (compare_card_lists example_files ''a.txt'' ''b.txt'' None)
       = Return ([(''Brainstorm'', 1)], [(''Opt'', 1)], [(''Sol Ring'', (1, 2))])"
    by code_simp
  have 4: "snd (compare_card_lists example_files ''a.txt'' ''b.txt'' (Some ''broken.txt''))
       = Return ([(''Brainstorm'', 1)], [(''Opt'', 1)], [])"
    by code_simp
  have 5: "exit_status (snd (main example_files ''a.txt'' ''b.txt'' (Some ''broken.txt''))) = 0"
    by code_simp
  show ?thesis by (intro conjI 1 2 3 4 5)
qed

end
